theory Spec2Isabelle
  imports Main
begin

section \<open>JavaScript values\<close>

text \<open>
  The adapter (\<^verbatim>\<open>src/index.ts\<close>) exchanges JSON with AnkiConnect and handles the
  decoded values as \<^verbatim>\<open>any\<close>. A value is modelled as the JavaScript value it is at
  run time: \<^verbatim>\<open>undefined\<close>, \<^verbatim>\<open>null\<close>, a boolean, a number, a string, an array, or an
  object (its own properties in order, the first binding of a key being the one read).
  Numbers are identifiers and counts here and are modelled as integers; strings are
  lists of \<open>char\<close>.
\<close>

datatype js =
    JUndefined
  | JNull
  | JBool bool
  | JNum int
  | JStr string
  | JArr "js list"
  | JObj "(string \<times> js) list"

datatype error =
    StatusError int string
  | AnkiConnectError js
  | NullResult
  | ParseError string
  | SocketError string
  | FailedAfter nat
  | NoNoteFound int
  | MissingCloze
  | NotClozeCard
  | TypeError
  | NotAnArray
  | FailedToReadDeck error

text \<open>
  The constructors of \<open>error\<close> stand for the messages of the source:
  \<open>StatusError\<close> ``AnkiConnect request failed with status ...'',
  \<open>AnkiConnectError\<close> ``AnkiConnect error: ...'',
  \<open>NullResult\<close> ``AnkiConnect returned null/undefined result'',
  \<open>ParseError\<close> ``Failed to parse AnkiConnect response: ...'',
  \<open>SocketError\<close> the error event of the HTTP request,
  \<open>FailedAfter\<close> ``Failed after n attempts'',
  \<open>NoNoteFound\<close> ``No note found for card ...'',
  \<open>MissingCloze\<close> ``Text must contain at least one cloze deletion using ... syntax'',
  \<open>NotClozeCard\<close> ``This card is not a cloze deletion card'',
  \<open>TypeError\<close> the run-time error of reading a property of \<^verbatim>\<open>undefined\<close> or \<^verbatim>\<open>null\<close>,
  \<open>FailedToReadDeck\<close> ``Failed to read deck: ...''.
  \<open>NotAnArray\<close> is not a message of the source: it marks the one place where the
  model stops, a \<^verbatim>\<open>findNotes\<close> payload that is not the array its declared type
  \<^verbatim>\<open>number[]\<close> promises.
\<close>

text \<open>Truthiness, as \<^verbatim>\<open>if (x)\<close> and \<^verbatim>\<open>x || y\<close> test it.\<close>

fun truthy :: "js \<Rightarrow> bool" where
  "truthy JUndefined = False"
| "truthy JNull = False"
| "truthy (JBool b) = b"
| "truthy (JNum n) = (n \<noteq> 0)"
| "truthy (JStr s) = (s \<noteq> [])"
| "truthy (JArr xs) = True"
| "truthy (JObj kvs) = True"

text \<open>
  Reading a property, \<^verbatim>\<open>x.p\<close> or \<^verbatim>\<open>x["p"]\<close>: a TypeError on \<^verbatim>\<open>undefined\<close> and
  \<^verbatim>\<open>null\<close>, the bound value or \<^verbatim>\<open>undefined\<close> on an object, \<^verbatim>\<open>length\<close> on an array
  and a string, \<^verbatim>\<open>undefined\<close> otherwise. The property names the source reads
  (\<^verbatim>\<open>error\<close>, \<^verbatim>\<open>result\<close>, \<^verbatim>\<open>length\<close>, \<^verbatim>\<open>modelName\<close>, \<^verbatim>\<open>cards\<close>, \<^verbatim>\<open>fields\<close>, \<^verbatim>\<open>tags\<close>,
  \<^verbatim>\<open>value\<close>, \<^verbatim>\<open>Text\<close>, \<^verbatim>\<open>Back Extra\<close>, \<^verbatim>\<open>Front\<close>, \<^verbatim>\<open>Back\<close>) are not inherited from a
  prototype, \<^verbatim>\<open>length\<close> apart.
\<close>

fun get :: "js \<Rightarrow> string \<Rightarrow> error + js" where
  "get JUndefined p = Inl TypeError"
| "get JNull p = Inl TypeError"
| "get (JObj kvs) p = Inr (case map_of kvs p of None \<Rightarrow> JUndefined | Some v \<Rightarrow> v)"
| "get (JArr xs) p = Inr (if p = ''length'' then JNum (int (length xs)) else JUndefined)"
| "get (JStr s) p = Inr (if p = ''length'' then JNum (int (length s)) else JUndefined)"
| "get (JBool b) p = Inr JUndefined"
| "get (JNum n) p = Inr JUndefined"

text \<open>Reading index 0, \<^verbatim>\<open>x[0]\<close>.\<close>

fun index0 :: "js \<Rightarrow> error + js" where
  "index0 JUndefined = Inl TypeError"
| "index0 JNull = Inl TypeError"
| "index0 (JArr xs) = Inr (case xs of [] \<Rightarrow> JUndefined | x # _ \<Rightarrow> x)"
| "index0 (JStr s) = Inr (case s of [] \<Rightarrow> JUndefined | c # _ \<Rightarrow> JStr [c])"
| "index0 (JObj kvs) = Inr (case map_of kvs ''0'' of None \<Rightarrow> JUndefined | Some v \<Rightarrow> v)"
| "index0 (JBool b) = Inr JUndefined"
| "index0 (JNum n) = Inr JUndefined"

section \<open>The backend and the effects of a request\<close>

text \<open>
  \<^verbatim>\<open>ankiRequest\<close> serialises \<^verbatim>\<open>{action, version: 6, params}\<close> and posts it. One HTTP
  exchange ends in the request's error event (\<open>ConnError\<close>) or in a response with a
  status code and a body; the third component of \<open>Response\<close> is what
  \<^verbatim>\<open>JSON.parse\<close> makes of the body, \<open>None\<close> when it throws.
\<close>

record request =
  action :: string
  version :: int
  params :: js

datatype outcome =
    ConnError string
  | Response int string "js option"

text \<open>
  The observable effects: \<open>Invoke\<close> is one call of \<^verbatim>\<open>ankiRequest\<close> (its first log
  line), \<open>Post\<close> one HTTP request, \<open>Sleep\<close> one \<^verbatim>\<open>setTimeout\<close> wait in milliseconds.
\<close>

datatype event =
    Invoke string js
  | Post request
  | Sleep nat

text \<open>
  The world outside the adapter: \<open>backend w k r\<close> is how the exchange of request
  \<open>r\<close> ends when \<open>k\<close> requests have been posted before it, \<open>posts\<close> counts the
  requests posted, \<open>trace\<close> records the effects in order.
\<close>

record world =
  backend :: "nat \<Rightarrow> request \<Rightarrow> outcome"
  posts :: nat
  trace :: "event list"

definition emit :: "event \<Rightarrow> world \<Rightarrow> world" where
  "emit e w = w\<lparr>trace := trace w @ [e]\<rparr>"

definition http_post :: "request \<Rightarrow> world \<Rightarrow> outcome \<times> world" where
  "http_post r w = (backend w (posts w) r, emit (Post r) (w\<lparr>posts := Suc (posts w)\<rparr>))"

definition sleep :: "nat \<Rightarrow> world \<Rightarrow> world" where
  "sleep ms w = emit (Sleep ms) w"

section \<open>The request pipeline\<close>

text \<open>
  The body of the promise of one attempt (lines 99 to 161): how an exchange settles
  it. The inner \<^verbatim>\<open>try\<close> turns every exception after the status check, also the
  TypeError of \<^verbatim>\<open>parsedData.error\<close> on a body that parses to \<^verbatim>\<open>null\<close>, into the parse
  error.
\<close>

definition null_ok :: "string \<Rightarrow> bool" where
  "null_ok a = (a = ''updateNoteFields'' \<or> a = ''replaceTags'')"

definition settle :: "string \<Rightarrow> outcome \<Rightarrow> error + js" where
  "settle a oc =
     (case oc of
        ConnError m \<Rightarrow> Inl (SocketError m)
      | Response status body parsed \<Rightarrow>
          if status \<noteq> 200 then Inl (StatusError status body)
          else (case parsed of
                  None \<Rightarrow> Inl (ParseError body)
                | Some parsedData \<Rightarrow>
                    (case get parsedData ''error'' of
                       Inl _ \<Rightarrow> Inl (ParseError body)
                     | Inr e \<Rightarrow>
                         if truthy e then Inl (AnkiConnectError e)
                         else (case get parsedData ''result'' of
                                 Inl _ \<Rightarrow> Inl (ParseError body)
                               | Inr r \<Rightarrow>
                                   if r = JNull \<or> r = JUndefined
                                   then (if null_ok a then Inr (JObj [])
                                         else Inl NullResult)
                                   else Inr r))))"

text \<open>
  The \<^verbatim>\<open>for\<close> loop of \<^verbatim>\<open>ankiRequest\<close> (lines 77 to 182): \<open>attempt\<close> counts from 1,
  every rejected attempt lands in the one \<^verbatim>\<open>catch\<close>, which rethrows on the last
  attempt and otherwise waits \<open>delay\<close> and doubles it.
\<close>

function attempts :: "string \<Rightarrow> js \<Rightarrow> nat \<Rightarrow> nat \<Rightarrow> nat \<Rightarrow> world \<Rightarrow> (error + js) \<times> world" where
  "attempts a p retries attempt delay w =
     (if attempt \<le> retries then
        (case http_post \<lparr>action = a, version = 6, params = p\<rparr> w of
           (oc, w1) \<Rightarrow>
             (case settle a oc of
                Inr result \<Rightarrow> (Inr result, w1)
              | Inl e \<Rightarrow>
                  if attempt = retries then (Inl e, w1)
                  else attempts a p retries (Suc attempt) (delay * 2) (sleep delay w1)))
      else (Inl (FailedAfter retries), w))"
  by pat_completeness auto
termination
  by (relation "measure (\<lambda>(a, p, retries, attempt, delay, w). Suc retries - attempt)") auto

declare attempts.simps [simp del]

definition ankiRequest :: "string \<Rightarrow> js \<Rightarrow> nat \<Rightarrow> nat \<Rightarrow> world \<Rightarrow> (error + js) \<times> world" where
  "ankiRequest a p retries delay w = attempts a p retries 1 delay (emit (Invoke a p) w)"

text \<open>Every caller in the source leaves \<^verbatim>\<open>retries = 3\<close> and \<^verbatim>\<open>delay = 1000\<close>.\<close>

definition anki :: "string \<Rightarrow> js \<Rightarrow> world \<Rightarrow> (error + js) \<times> world" where
  "anki a p w = ankiRequest a p 3 1000 w"

section \<open>Sequencing\<close>

text \<open>
  An \<^verbatim>\<open>await\<close>ed call that throws ends the handler with that error; \<open>and_then\<close>
  passes the result and the world on otherwise. \<open>seq\<close> is the same for a step
  without effects, \<open>pure\<close> embeds such a step.
\<close>

definition and_then ::
  "(error + 'a) \<times> world \<Rightarrow> ('a \<Rightarrow> world \<Rightarrow> (error + 'b) \<times> world) \<Rightarrow> (error + 'b) \<times> world" where
  "and_then m f = (case m of (Inl e, w) \<Rightarrow> (Inl e, w) | (Inr x, w) \<Rightarrow> f x w)"

definition seq :: "error + 'a \<Rightarrow> ('a \<Rightarrow> error + 'b) \<Rightarrow> error + 'b" where
  "seq r f = (case r of Inl e \<Rightarrow> Inl e | Inr x \<Rightarrow> f x)"

definition pure :: "error + 'a \<Rightarrow> world \<Rightarrow> (error + 'a) \<times> world" where
  "pure r w = (r, w)"

section \<open>The tool handlers\<close>

text \<open>
  The handlers are modelled from the point where the zod schema has accepted the
  arguments: an optional argument is an \<open>option\<close>, \<open>None\<close> when it is left out. A
  handler that returns its success message returns \<open>()\<close>.
\<close>

text \<open>\<^verbatim>\<open>String.prototype.includes\<close> and \<^verbatim>\<open>Array.prototype.join\<close>.\<close>

fun str_includes :: "string \<Rightarrow> string \<Rightarrow> bool" where
  "str_includes [] sub = (sub = [])"
| "str_includes (c # cs) sub = (take (length sub) (c # cs) = sub \<or> str_includes cs sub)"

fun join :: "string \<Rightarrow> string list \<Rightarrow> string" where
  "join sep [] = []"
| "join sep [x] = x"
| "join sep (x # y # ys) = x @ sep @ join sep (y # ys)"

text \<open>The test of lines 439 and 496, negated: the text passes.\<close>

definition has_cloze :: "string \<Rightarrow> bool" where
  "has_cloze text = (str_includes text ''{{c'' \<and> str_includes text ''}}'')"

text \<open>Truthiness of an optional string argument: given and not empty.\<close>

definition given :: "string option \<Rightarrow> bool" where
  "given s = (case s of None \<Rightarrow> False | Some v \<Rightarrow> v \<noteq> [])"

text \<open>\<^verbatim>\<open>if (s) fields[k] = s\<close>\<close>

definition field_if :: "string \<Rightarrow> string option \<Rightarrow> (string \<times> js) list" where
  "field_if k s = (case s of None \<Rightarrow> [] | Some v \<Rightarrow> if v \<noteq> [] then [(k, JStr v)] else [])"

text \<open>\<^verbatim>\<open>if (s !== undefined) fields[k] = s\<close>\<close>

definition field_if_defined :: "string \<Rightarrow> string option \<Rightarrow> (string \<times> js) list" where
  "field_if_defined k s = (case s of None \<Rightarrow> [] | Some v \<Rightarrow> [(k, JStr v)])"

text \<open>The tag update both update handlers end with (lines 413 to 418, 516 to 521).\<close>

definition replace_tags :: "js \<Rightarrow> string list option \<Rightarrow> world \<Rightarrow> (error + unit) \<times> world" where
  "replace_tags noteId tags w =
     (case tags of
        None \<Rightarrow> (Inr (), w)
      | Some ts \<Rightarrow>
          and_then
            (anki ''replaceTags'' (JObj [(''notes'', JArr [noteId]), (''tags'', JStr (join '' '' ts))]) w)
            (\<lambda>_ w'. (Inr (), w')))"

text \<open>The resolution of the card to its note (lines 390 to 398, 472 to 480).\<close>

definition note_of_card :: "int \<Rightarrow> world \<Rightarrow> (error + js) \<times> world" where
  "note_of_card cardId w =
     and_then (anki ''cardsToNotes'' (JObj [(''cards'', JArr [JNum cardId])]) w)
       (\<lambda>noteIdResponse w1.
          and_then (pure (get noteIdResponse ''length'') w1)
            (\<lambda>len w1.
               if len = JNum 0 then (Inl (NoNoteFound cardId), w1)
               else pure (index0 noteIdResponse) w1))"

text \<open>\<^verbatim>\<open>update-card\<close> (lines 386 to 428).\<close>

definition update_card ::
  "int \<Rightarrow> string option \<Rightarrow> string option \<Rightarrow> string list option \<Rightarrow> world \<Rightarrow> (error + unit) \<times> world" where
  "update_card cardId front back tags w =
     and_then (note_of_card cardId w)
       (\<lambda>noteId w1.
          and_then
            (if given front \<or> given back
             then anki ''updateNoteFields''
                    (JObj [(''note'', JObj [(''id'', noteId),
                       (''fields'', JObj (field_if ''Front'' front @ field_if ''Back'' back))])]) w1
             else (Inr JUndefined, w1))
            (\<lambda>_ w2. replace_tags noteId tags w2))"

text \<open>\<^verbatim>\<open>create-cloze-card\<close> (lines 430 to 465); \<^verbatim>\<open>backExtra\<close> and \<^verbatim>\<open>tags\<close> default to
  the empty string and the empty array.\<close>

definition create_cloze_card ::
  "string \<Rightarrow> string \<Rightarrow> string option \<Rightarrow> string list option \<Rightarrow> world \<Rightarrow> (error + unit) \<times> world" where
  "create_cloze_card deckName text backExtra tags w =
     (if \<not> str_includes text ''{{c'' \<or> \<not> str_includes text ''}}'' then (Inl MissingCloze, w)
      else and_then
             (anki ''addNote''
                (JObj [(''note'', JObj
                   [(''deckName'', JStr deckName),
                    (''modelName'', JStr ''Cloze''),
                    (''fields'', JObj
                       [(''Text'', JStr text),
                        (''Back'', JStr (case backExtra of None \<Rightarrow> [] | Some b \<Rightarrow> b))]),
                    (''tags'', JArr (map JStr (case tags of None \<Rightarrow> [] | Some ts \<Rightarrow> ts)))])]) w)
             (\<lambda>_ w'. (Inr (), w')))"

text \<open>The fields object of \<^verbatim>\<open>update-cloze-card\<close> (lines 493 to 505).\<close>

definition cloze_fields :: "string option \<Rightarrow> string option \<Rightarrow> error + (string \<times> js) list" where
  "cloze_fields text backExtra =
     seq (case text of
            None \<Rightarrow> Inr []
          | Some t \<Rightarrow>
              if t \<noteq> [] then
                (if \<not> str_includes t ''{{c'' \<or> \<not> str_includes t ''}}'' then Inl MissingCloze
                 else Inr [(''Text'', JStr t)])
              else Inr [])
       (\<lambda>text_field. Inr (text_field @ field_if_defined ''Back Extra'' backExtra))"

text \<open>\<^verbatim>\<open>update-cloze-card\<close> (lines 467 to 531).\<close>

definition update_cloze_card ::
  "int \<Rightarrow> string option \<Rightarrow> string option \<Rightarrow> string list option \<Rightarrow> world \<Rightarrow> (error + unit) \<times> world" where
  "update_cloze_card cardId text backExtra tags w =
     and_then (note_of_card cardId w)
       (\<lambda>noteId w1.
          and_then (anki ''notesInfo'' (JObj [(''notes'', JArr [noteId])]) w1)
            (\<lambda>noteInfo w2.
               and_then (pure (seq (index0 noteInfo) (\<lambda>n. get n ''modelName'')) w2)
                 (\<lambda>modelName w2.
                    if modelName \<noteq> JStr ''Cloze'' then (Inl NotClozeCard, w2)
                    else and_then
                           (if given text \<or> given backExtra
                            then and_then (pure (cloze_fields text backExtra) w2)
                                   (\<lambda>fields w2.
                                      anki ''updateNoteFields''
                                        (JObj [(''note'', JObj [(''id'', noteId),
                                           (''fields'', JObj fields)])]) w2)
                            else (Inr JUndefined, w2))
                           (\<lambda>_ w3. replace_tags noteId tags w3))))"

section \<open>Reading a deck\<close>

text \<open>
  The projected card: \<^verbatim>\<open>cardId\<close>, the values of \<^verbatim>\<open>fields.Front\<close> and \<^verbatim>\<open>fields.Back\<close>,
  and \<^verbatim>\<open>tags\<close>.
\<close>

record card =
  cardId :: js
  Front :: js
  Back :: js
  tags :: js

text \<open>The function mapped over the notes (lines 629 to 662).\<close>

definition cardInfo :: "js \<Rightarrow> error + card" where
  "cardInfo note =
     seq (get note ''modelName'') (\<lambda>modelName.
       if modelName = JStr ''Cloze'' then
         seq (seq (get note ''cards'') index0) (\<lambda>c.
         seq (seq (seq (get note ''fields'') (\<lambda>f. get f ''Text'')) (\<lambda>t. get t ''value'')) (\<lambda>text.
         seq (seq (seq (get note ''fields'') (\<lambda>f. get f ''Back Extra'')) (\<lambda>b. get b ''value'')) (\<lambda>extra.
         seq (get note ''tags'') (\<lambda>ts.
           Inr \<lparr>cardId = c, Front = text,
                Back = (if truthy extra then extra else JStr ''[Cloze deletion]''),
                tags = ts\<rparr>))))
       else if modelName = JStr ''Basic'' then
         seq (seq (get note ''cards'') index0) (\<lambda>c.
         seq (seq (seq (get note ''fields'') (\<lambda>f. get f ''Front'')) (\<lambda>t. get t ''value'')) (\<lambda>front.
         seq (seq (seq (get note ''fields'') (\<lambda>f. get f ''Back'')) (\<lambda>b. get b ''value'')) (\<lambda>back.
         seq (get note ''tags'') (\<lambda>ts.
           Inr \<lparr>cardId = c, Front = front, Back = back, tags = ts\<rparr>))))
       else
         seq (seq (get note ''cards'') index0) (\<lambda>c.
         seq (get note ''tags'') (\<lambda>ts.
           Inr \<lparr>cardId = c, Front = JStr ''[Unknown note type]'',
                Back = JStr ''[Unknown note type]'', tags = ts\<rparr>)))"

text \<open>\<^verbatim>\<open>allNotes.map(...)\<close>: the first note that throws ends the mapping.\<close>

fun map_cards :: "js list \<Rightarrow> error + card list" where
  "map_cards [] = Inr []"
| "map_cards (note # notes) =
     seq (cardInfo note) (\<lambda>c. seq (map_cards notes) (\<lambda>cs. Inr (c # cs)))"

text \<open>\<^verbatim>\<open>noteIds.slice(i, j)\<close> for \<open>i \<le> j\<close>, and \<^verbatim>\<open>allNotes.concat(v)\<close>, which appends
  the elements of an array and any other value as one element.\<close>

definition slice :: "'a list \<Rightarrow> nat \<Rightarrow> nat \<Rightarrow> 'a list" where
  "slice xs i j = take (j - i) (drop i xs)"

definition concat_js :: "js list \<Rightarrow> js \<Rightarrow> js list" where
  "concat_js xs v = (case v of JArr ys \<Rightarrow> xs @ ys | _ \<Rightarrow> xs @ [v])"

definition chunkSize :: nat where
  "chunkSize = 5"

text \<open>The batching loop (lines 599 to 612).\<close>

function fetch_chunks :: "js list \<Rightarrow> nat \<Rightarrow> js list \<Rightarrow> world \<Rightarrow> (error + js list) \<times> world" where
  "fetch_chunks noteIds i allNotes w =
     (if i < length noteIds then
        and_then
          (anki ''notesInfo'' (JObj [(''notes'', JArr (slice noteIds i (i + chunkSize)))]) w)
          (\<lambda>chunkNotes w1. fetch_chunks noteIds (i + chunkSize) (concat_js allNotes chunkNotes) w1)
      else (Inr allNotes, w))"
  by pat_completeness auto
termination
  by (relation "measure (\<lambda>(noteIds, i, allNotes, w). length noteIds - i)")
     (auto simp: chunkSize_def)

declare fetch_chunks.simps [simp del]

text \<open>
  The rendering of the cards (lines 666 to 674) calls \<^verbatim>\<open>card.tags.join\<close>, which throws
  a TypeError unless the tags are an array. The text it builds is left out: what is
  kept of the rendering is this failure.
\<close>

definition is_array :: "js \<Rightarrow> bool" where
  "is_array v = (case v of JArr xs \<Rightarrow> True | _ \<Rightarrow> False)"

definition deckContent :: "card list \<Rightarrow> error + card list" where
  "deckContent cs = (if list_all (\<lambda>c. is_array (tags c)) cs then Inr cs else Inl TypeError)"

text \<open>
  The handler of a deck's contents (lines 564 to 693), from the decoded deck name on;
  it returns the cards it has rendered. The \<^verbatim>\<open>catch\<close> wraps every error.
\<close>

datatype listing = NoNotes | Cards "card list"

definition read_deck :: "string \<Rightarrow> world \<Rightarrow> (error + listing) \<times> world" where
  "read_deck deckName w =
     (case and_then (anki ''findNotes'' (JObj [(''query'', JStr (''deck:'' @ deckName))]) w)
             (\<lambda>noteIds w1.
                case noteIds of
                  JArr ids \<Rightarrow>
                    if length ids = 0 then (Inr NoNotes, w1)
                    else and_then (fetch_chunks ids 0 [] w1)
                           (\<lambda>allNotes w2.
                              pure (seq (seq (map_cards allNotes) deckContent)
                                      (\<lambda>cs. Inr (Cards cs))) w2)
                | _ \<Rightarrow> (Inl NotAnArray, w1)) of
        (Inl e, w') \<Rightarrow> (Inl (FailedToReadDeck e), w')
      | (Inr r, w') \<Rightarrow> (Inr r, w'))"

section \<open>Observations on a trace\<close>

text \<open>The effects that a step from world \<open>w\<close> to world \<open>w'\<close> added.\<close>

definition since :: "world \<Rightarrow> world \<Rightarrow> event list" where
  "since w w' = drop (length (trace w)) (trace w')"

definition posted :: "event list \<Rightarrow> request list" where
  "posted evs = concat (map (\<lambda>e. case e of Post r \<Rightarrow> [r] | _ \<Rightarrow> []) evs)"

definition sleeps :: "event list \<Rightarrow> nat list" where
  "sleeps evs = concat (map (\<lambda>e. case e of Sleep ms \<Rightarrow> [ms] | _ \<Rightarrow> []) evs)"

text \<open>The actions that were called or posted, in order.\<close>

definition actions :: "event list \<Rightarrow> string list" where
  "actions evs =
     concat (map (\<lambda>e. case e of Invoke a p \<Rightarrow> [a] | Post r \<Rightarrow> [action r] | Sleep ms \<Rightarrow> []) evs)"

text \<open>
  \<open>n\<close> attempts at request \<open>r\<close> that all fail, with the wait before each retry:
  post, wait \<open>d\<close>, post, wait \<open>2 d\<close>, ..., post.
\<close>

fun schedule :: "request \<Rightarrow> nat \<Rightarrow> nat \<Rightarrow> event list" where
  "schedule r 0 d = []"
| "schedule r (Suc 0) d = [Post r]"
| "schedule r (Suc (Suc n)) d = Post r # Sleep d # schedule r (Suc n) (d * 2)"

text \<open>An event of the call \<^verbatim>\<open>ankiRequest(a, p)\<close>.\<close>

definition about :: "string \<Rightarrow> js \<Rightarrow> event \<Rightarrow> bool" where
  "about a p e =
     (case e of
        Invoke a' p' \<Rightarrow> a' = a \<and> p' = p
      | Post r \<Rightarrow> r = \<lparr>action = a, version = 6, params = p\<rparr>
      | Sleep ms \<Rightarrow> True)"

text \<open>The note lists of the \<^verbatim>\<open>notesInfo\<close> calls, in order.\<close>

definition batch_of :: "event \<Rightarrow> js list list" where
  "batch_of e =
     (case e of
        Invoke a (JObj [(k, JArr c)]) \<Rightarrow> if a = ''notesInfo'' \<and> k = ''notes'' then [c] else []
      | _ \<Rightarrow> [])"

definition batches :: "event list \<Rightarrow> js list list" where
  "batches evs = concat (map batch_of evs)"

text \<open>The value a request writes to field \<open>k\<close> of a note: \<^verbatim>\<open>params.note.fields[k]\<close>.\<close>

definition written :: "request \<Rightarrow> string \<Rightarrow> error + js" where
  "written r k = seq (seq (get (params r) ''note'') (\<lambda>n. get n ''fields'')) (\<lambda>f. get f k)"

text \<open>
  A step from \<open>w\<close> to \<open>w'\<close> grows the trace by events that all satisfy \<open>Q\<close> and
  leaves the backend as it is.
\<close>

definition grows :: "(event \<Rightarrow> bool) \<Rightarrow> world \<Rightarrow> world \<Rightarrow> bool" where
  "grows Q w w' =
     (backend w' = backend w \<and> take (length (trace w)) (trace w') = trace w
      \<and> list_all Q (since w w'))"

text \<open>A request that sets the front, the back or the text of a note to the empty string.\<close>

definition clears :: "request \<Rightarrow> bool" where
  "clears r =
     (action r = ''updateNoteFields''
      \<and> (written r ''Front'' = Inr (JStr []) \<or> written r ''Back'' = Inr (JStr [])
           \<or> written r ''Text'' = Inr (JStr [])))"

text \<open>The lists that \<open>xs\<close> falls into when cut every \<open>n\<close> elements.\<close>

function chunks :: "nat \<Rightarrow> 'a list \<Rightarrow> 'a list list" where
  "chunks n xs = (if n = 0 \<or> xs = [] then [] else take n xs # chunks n (drop n xs))"
  by pat_completeness auto
termination
  by (relation "measure (\<lambda>(n, xs). length xs)") auto

declare chunks.simps [simp del]

section \<open>A cloze marker pair\<close>

text \<open>
  A cloze deletion is written \<^verbatim>\<open>{{c1::text}}\<close>: an opening \<^verbatim>\<open>{{c\<close> with a closing
  \<^verbatim>\<open>}}\<close> somewhere after it. \<open>str_after text sub\<close> is what follows the first
  occurrence of \<open>sub\<close> in \<open>text\<close>; a text has a marker pair when \<^verbatim>\<open>}}\<close> occurs
  after its first \<^verbatim>\<open>{{c\<close>. This is the notion of the tool's description, not the
  test of the handlers (\<open>has_cloze\<close>), which does not look at the order.
\<close>

fun str_after :: "string \<Rightarrow> string \<Rightarrow> string option" where
  "str_after [] sub = (if sub = [] then Some [] else None)"
| "str_after (c # cs) sub =
     (if take (length sub) (c # cs) = sub then Some (drop (length sub) (c # cs))
      else str_after cs sub)"

definition marker_pair :: "string \<Rightarrow> bool" where
  "marker_pair text =
     (case str_after text ''{{c'' of None \<Rightarrow> False | Some rest \<Rightarrow> str_includes rest ''}}'')"

section \<open>Kinds of failed attempts\<close>

text \<open>
  A transport failure: the connection failed, the status is not 200, or the body does
  not parse. A semantic failure: a 200 response whose envelope has a truthy
  \<^verbatim>\<open>error\<close>, or no \<^verbatim>\<open>result\<close> for an action that must have one. A null reply: a 200
  response whose \<^verbatim>\<open>error\<close> and \<^verbatim>\<open>result\<close> are both null or absent.
\<close>

definition absent :: "error + js \<Rightarrow> bool" where
  "absent v = (v = Inr JNull \<or> v = Inr JUndefined)"

definition transport_failure :: "outcome \<Rightarrow> bool" where
  "transport_failure oc =
     (case oc of
        ConnError m \<Rightarrow> True
      | Response status body parsed \<Rightarrow> status \<noteq> 200 \<or> parsed = None)"

definition transport_error :: "error \<Rightarrow> bool" where
  "transport_error e =
     (case e of
        SocketError m \<Rightarrow> True
      | StatusError status body \<Rightarrow> True
      | ParseError body \<Rightarrow> True
      | _ \<Rightarrow> False)"

definition semantic_failure :: "string \<Rightarrow> outcome \<Rightarrow> bool" where
  "semantic_failure a oc =
     (case oc of
        Response status body (Some parsedData) \<Rightarrow>
          status = 200 \<and>
          (case get parsedData ''error'' of
             Inl _ \<Rightarrow> False
           | Inr e \<Rightarrow> truthy e \<or> (absent (get parsedData ''result'') \<and> \<not> null_ok a))
      | _ \<Rightarrow> False)"

definition semantic_error :: "error \<Rightarrow> bool" where
  "semantic_error e = (case e of AnkiConnectError m \<Rightarrow> True | NullResult \<Rightarrow> True | _ \<Rightarrow> False)"


section \<open>Example worlds\<close>

text \<open>
  A 200 response with the envelope \<^verbatim>\<open>{result, error}\<close>. The body text is only ever
  copied into an error message; the examples abbreviate it.
\<close>

definition envelope :: "js \<Rightarrow> js \<Rightarrow> outcome" where
  "envelope res err = Response 200 ''{...}'' (Some (JObj [(''result'', res), (''error'', err)]))"

definition fresh :: "(nat \<Rightarrow> request \<Rightarrow> outcome) \<Rightarrow> world" where
  "fresh b = \<lparr>backend = b, posts = 0, trace = []\<rparr>"

text \<open>A backend that is down, and one that rejects every request as a duplicate.\<close>

definition refusing :: "nat \<Rightarrow> request \<Rightarrow> outcome" where
  "refusing k r = ConnError ''ECONNREFUSED''"

definition rejecting :: "nat \<Rightarrow> request \<Rightarrow> outcome" where
  "rejecting k r = envelope JNull (JStr ''cannot create note because it is a duplicate'')"



text \<open>
  A backend with notes of one model: every card belongs to note 1, \<^verbatim>\<open>findNotes\<close>
  finds \<open>ids\<close>, \<^verbatim>\<open>notesInfo\<close> describes each requested note by \<open>info\<close>, the two
  updates answer null, \<^verbatim>\<open>addNote\<close> answers the new note's identifier.
\<close>

definition requested :: "js \<Rightarrow> js list" where
  "requested p = (case p of JObj [(k, JArr c)] \<Rightarrow> c | _ \<Rightarrow> [])"

definition serving :: "js list \<Rightarrow> (js \<Rightarrow> js) \<Rightarrow> nat \<Rightarrow> request \<Rightarrow> outcome" where
  "serving ids info k r =
     (if action r = ''cardsToNotes'' then envelope (JArr [JNum 1]) JNull
      else if action r = ''findNotes'' then envelope (JArr ids) JNull
      else if action r = ''notesInfo'' then envelope (JArr (map info (requested (params r)))) JNull
      else if action r = ''updateNoteFields'' \<or> action r = ''replaceTags'' then envelope JNull JNull
      else if action r = ''addNote'' then envelope (JNum 2) JNull
      else envelope JNull (JStr ''unsupported action''))"

definition basic_note :: "js \<Rightarrow> js" where
  "basic_note i =
     JObj [(''noteId'', i), (''modelName'', JStr ''Basic''), (''tags'', JArr [JStr ''geo'']),
           (''fields'', JObj [(''Front'', JObj [(''value'', JStr ''Q''), (''order'', JNum 0)]),
                              (''Back'', JObj [(''value'', JStr ''A''), (''order'', JNum 1)])]),
           (''cards'', JArr [i])]"

definition cloze_note :: "js \<Rightarrow> js \<Rightarrow> js" where
  "cloze_note extra i =
     JObj [(''noteId'', i), (''modelName'', JStr ''Cloze''), (''tags'', JArr [JStr ''geo'']),
           (''fields'', JObj [(''Text'', JObj [(''value'', JStr ''{{c1::Paris}}''), (''order'', JNum 0)]),
                              (''Back Extra'', JObj [(''value'', extra), (''order'', JNum 1)])]),
           (''cards'', JArr [i])]"

text \<open>Twelve note identifiers, and the card that a note of \<open>basic_note\<close> is projected to.\<close>

definition twelve :: "js list" where
  "twelve = map JNum [1, 2, 3, 4, 5, 6, 7, 8, 9, 10, 11, 12]"

definition basic_card :: "js \<Rightarrow> card" where
  "basic_card i = \<lparr>cardId = i, Front = JStr ''Q'', Back = JStr ''A'', tags = JArr [JStr ''geo'']\<rparr>"

text \<open>A Cloze note whose fields lack \<^verbatim>\<open>Back Extra\<close>, and a note of a model the adapter does
  not know.\<close>

definition bare_cloze_note :: js where
  "bare_cloze_note =
     JObj [(''noteId'', JNum 1), (''modelName'', JStr ''Cloze''), (''tags'', JArr []),
           (''fields'', JObj [(''Text'', JObj [(''value'', JStr ''{{c1::Paris}}''), (''order'', JNum 0)])]),
           (''cards'', JArr [JNum 1])]"


text \<open>The first element of an array, \<^verbatim>\<open>undefined\<close> when it is empty, and the value bound
  to a key of an object, \<^verbatim>\<open>undefined\<close> when there is none.\<close>

definition first :: "js list \<Rightarrow> js" where
  "first xs = (case xs of [] \<Rightarrow> JUndefined | x # _ \<Rightarrow> x)"

definition bound :: "(string \<times> js) list \<Rightarrow> string \<Rightarrow> js" where
  "bound kvs k = (case map_of kvs k of None \<Rightarrow> JUndefined | Some v \<Rightarrow> v)"

section \<open>The request pipeline: attempts, waits and results\<close>

text \<open>One attempt: the last one fails, an earlier one is retried, any one succeeds.\<close>

lemma attempts_last:
  "settle a (backend w (posts w) \<lparr>action = a, version = 6, params = p\<rparr>) = Inl e \<Longrightarrow>
   0 < retries \<Longrightarrow>
   attempts a p retries retries delay w =
     (Inl e, w\<lparr>posts := Suc (posts w),
              trace := trace w @ [Post \<lparr>action = a, version = 6, params = p\<rparr>]\<rparr>)"
  by (simp add: attempts.simps [of a p retries retries] http_post_def emit_def)

lemma attempts_retry:
  "settle a (backend w (posts w) \<lparr>action = a, version = 6, params = p\<rparr>) = Inl e \<Longrightarrow>
   attempt < retries \<Longrightarrow>
   attempts a p retries attempt delay w =
     attempts a p retries (Suc attempt) (delay * 2)
       (w\<lparr>posts := Suc (posts w),
          trace := trace w @ [Post \<lparr>action = a, version = 6, params = p\<rparr>, Sleep delay]\<rparr>)"
  by (simp add: attempts.simps [of a p retries attempt] http_post_def sleep_def emit_def)

lemma attempts_success:
  "settle a (backend w (posts w) \<lparr>action = a, version = 6, params = p\<rparr>) = Inr v \<Longrightarrow>
   attempt \<le> retries \<Longrightarrow>
   attempts a p retries attempt delay w =
     (Inr v, w\<lparr>posts := Suc (posts w),
              trace := trace w @ [Post \<lparr>action = a, version = 6, params = p\<rparr>]\<rparr>)"
  by (simp add: attempts.simps [of a p retries attempt] http_post_def emit_def)

lemma attempts_fail_all:
  "retries = attempt + n \<Longrightarrow> 0 < attempt \<Longrightarrow>
   (\<forall>k<n. \<exists>e'. settle a (backend w (posts w + k) \<lparr>action = a, version = 6, params = p\<rparr>) = Inl e') \<Longrightarrow>
   settle a (backend w (posts w + n) \<lparr>action = a, version = 6, params = p\<rparr>) = Inl e \<Longrightarrow>
   attempts a p retries attempt delay w =
     (Inl e, w\<lparr>posts := posts w + Suc n,
              trace := trace w @ schedule \<lparr>action = a, version = 6, params = p\<rparr> (Suc n) delay\<rparr>)"
proof (induction n arbitrary: attempt delay w)
  case 0
  then show ?case using attempts_last [of a w p e retries delay] by simp
next
  case (Suc n)
  let ?r = "\<lparr>action = a, version = 6, params = p\<rparr>"
  let ?w = "w\<lparr>posts := Suc (posts w), trace := trace w @ [Post ?r, Sleep delay]\<rparr>"
  from Suc.prems(3) obtain e0 where e0: "settle a (backend w (posts w) ?r) = Inl e0"
    by (metis add.right_neutral zero_less_Suc)
  have step: "attempts a p retries attempt delay w = attempts a p retries (Suc attempt) (delay * 2) ?w"
    using attempts_retry [OF e0, of attempt retries delay] Suc.prems(1) by simp
  have "attempts a p retries (Suc attempt) (delay * 2) ?w =
      (Inl e, ?w\<lparr>posts := posts ?w + Suc n, trace := trace ?w @ schedule ?r (Suc n) (delay * 2)\<rparr>)"
  proof (rule Suc.IH)
    show "retries = Suc attempt + n" using Suc.prems(1) by simp
    show "0 < Suc attempt" by simp
    show "\<forall>k<n. \<exists>e'. settle a (backend ?w (posts ?w + k) ?r) = Inl e'"
    proof (intro allI impI)
      fix k assume "k < n"
      then have "Suc k < Suc n" by simp
      with Suc.prems(3) obtain e' where "settle a (backend w (posts w + Suc k) ?r) = Inl e'" by blast
      then show "\<exists>e'. settle a (backend ?w (posts ?w + k) ?r) = Inl e'" by simp
    qed
    show "settle a (backend ?w (posts ?w + n) ?r) = Inl e" using Suc.prems(4) by simp
  qed
  with step show ?case by simp
qed

lemma ankiRequest_fail_all:
  assumes "0 < retries"
    and "\<forall>k<retries. \<exists>e'. settle a (backend w (posts w + k) \<lparr>action = a, version = 6, params = p\<rparr>) = Inl e'"
  shows "\<exists>e w'. ankiRequest a p retries delay w = (Inl e, w')
           \<and> settle a (backend w (posts w + (retries - 1)) \<lparr>action = a, version = 6, params = p\<rparr>) = Inl e
           \<and> since w w' = Invoke a p # schedule \<lparr>action = a, version = 6, params = p\<rparr> retries delay
           \<and> posts w' = posts w + retries"
proof -
  let ?r = "\<lparr>action = a, version = 6, params = p\<rparr>"
  let ?w0 = "emit (Invoke a p) w"
  obtain n where n: "retries = Suc n" using assms(1) by (cases retries) auto
  from assms(2) n obtain e where e: "settle a (backend w (posts w + n) ?r) = Inl e" by auto
  have b: "backend ?w0 = backend w" "posts ?w0 = posts w" by (simp_all add: emit_def)
  have "attempts a p retries 1 delay ?w0 =
     (Inl e, ?w0\<lparr>posts := posts ?w0 + Suc n, trace := trace ?w0 @ schedule ?r (Suc n) delay\<rparr>)"
    by (rule attempts_fail_all) (use assms(2) n e in \<open>simp_all add: b\<close>)
  then show ?thesis using e n
    by (simp add: ankiRequest_def since_def emit_def)
qed

lemma posted_Invoke: "posted (Invoke a p # evs) = posted evs"
  by (simp add: posted_def)

lemma sleeps_Invoke: "sleeps (Invoke a p # evs) = sleeps evs"
  by (simp add: sleeps_def)

lemma posted_schedule: "posted (schedule r n d) = replicate n r"
  by (induction r n d rule: schedule.induct) (simp_all add: posted_def)

lemma sleeps_schedule: "sleeps (schedule r n d) = map (\<lambda>k. d * 2 ^ k) [0..<n - 1]"
proof (induction r n d rule: schedule.induct)
  case (3 r n d)
  have "map (\<lambda>k. d * 2 ^ k) [0..<Suc n] = d # map (\<lambda>k. d * 2 * 2 ^ k) [0..<n]"
    by (simp add: upt_rec [of 0] map_Suc_upt [symmetric] del: upt_Suc)
  with 3 show ?case by (simp add: sleeps_def)
qed (simp_all add: sleeps_def)

lemma transport_failure_settle:
  "transport_failure oc \<Longrightarrow> \<exists>e. settle a oc = Inl e \<and> transport_error e"
  by (auto simp: transport_failure_def settle_def transport_error_def split: outcome.splits option.splits)

lemma semantic_failure_settle:
  "semantic_failure a oc \<Longrightarrow> \<exists>e. settle a oc = Inl e \<and> semantic_error e"
  by (auto simp: semantic_failure_def settle_def semantic_error_def absent_def split: outcome.splits option.splits sum.splits)



text \<open>
  Three edges of the pipeline. With \<open>retries = 0\<close> the loop body never runs: nothing is
  posted and the error is ``Failed after 0 attempts''. An \<^verbatim>\<open>error\<close> field that is the
  empty string is not null but is falsy: the response succeeds with its result. A body
  that parses to \<^verbatim>\<open>null\<close> ends in the parse error.
\<close>

lemma ankiRequest_no_attempt:
  "ankiRequest a p 0 delay w = (Inl (FailedAfter 0), emit (Invoke a p) w)"
  by (simp add: ankiRequest_def attempts.simps [of a p 0])

lemma settle_empty_error:
  "r \<noteq> JNull \<Longrightarrow> r \<noteq> JUndefined \<Longrightarrow>
   settle a (Response 200 body (Some (JObj [(''result'', r), (''error'', JStr [])]))) = Inr r"
  by (simp add: settle_def)

lemma settle_null_body:
  "settle a (Response 200 body (Some JNull)) = Inl (ParseError body)"
  by (simp add: settle_def)

text \<open>
  Claim C2. When each of the \<open>retries\<close> attempts (\<open>retries\<close> at least 1) ends in a
  transport failure (connection error, status other than 200, body that does not
  parse), \<^verbatim>\<open>ankiRequest\<close> posts the request exactly \<open>retries\<close> times, waits before each
  retry, the waits being \<open>delay\<close>, \<open>2 delay\<close>, \<open>4 delay\<close>, ..., and fails with the
  transport error of the last attempt.
\<close>

theorem transport_failures_exhaust_retries:
  assumes "0 < retries"
    and "\<forall>k<retries. transport_failure (backend w (posts w + k) \<lparr>action = a, version = 6, params = p\<rparr>)"
  shows "\<exists>e w'. ankiRequest a p retries delay w = (Inl e, w')
           \<and> settle a (backend w (posts w + (retries - 1)) \<lparr>action = a, version = 6, params = p\<rparr>) = Inl e
           \<and> transport_error e
           \<and> since w w' = Invoke a p # schedule \<lparr>action = a, version = 6, params = p\<rparr> retries delay
           \<and> posted (since w w') = replicate retries \<lparr>action = a, version = 6, params = p\<rparr>
           \<and> sleeps (since w w') = map (\<lambda>k. delay * 2 ^ k) [0..<retries - 1]"
proof -
  let ?r = "\<lparr>action = a, version = 6, params = p\<rparr>"
  have fails: "\<forall>k<retries. \<exists>e'. settle a (backend w (posts w + k) ?r) = Inl e'"
    using assms(2) transport_failure_settle by blast
  from ankiRequest_fail_all [OF assms(1) fails, of delay]
  obtain e w' where r: "ankiRequest a p retries delay w = (Inl e, w')"
    and e: "settle a (backend w (posts w + (retries - 1)) ?r) = Inl e"
    and t: "since w w' = Invoke a p # schedule ?r retries delay"
    by blast
  have "retries - 1 < retries" using assms(1) by simp
  then have "transport_failure (backend w (posts w + (retries - 1)) ?r)"
    using assms(2) by blast
  with e have te: "transport_error e"
    using transport_failure_settle [of "backend w (posts w + (retries - 1)) ?r" a] by simp
  have "posted (since w w') = replicate retries ?r"
    by (simp add: t posted_Invoke posted_schedule)
  moreover have "sleeps (since w w') = map (\<lambda>k. delay * 2 ^ k) [0..<retries - 1]"
    by (simp add: t sleeps_Invoke sleeps_schedule)
  ultimately show ?thesis using r e te t by blast
qed

text \<open>With the defaults and a backend that is down: three posts, waits of 1000 and 2000.\<close>

theorem transport_failures_exhaust_retries_witness:
  "(0::nat) < 3
   \<and> transport_failure (backend (fresh refusing) 0 \<lparr>action = ''deckNames'', version = 6, params = JObj []\<rparr>)
   \<and> transport_failure (backend (fresh refusing) 1 \<lparr>action = ''deckNames'', version = 6, params = JObj []\<rparr>)
   \<and> transport_failure (backend (fresh refusing) 2 \<lparr>action = ''deckNames'', version = 6, params = JObj []\<rparr>)
   \<and> fst (ankiRequest ''deckNames'' (JObj []) 3 1000 (fresh refusing)) = Inl (SocketError ''ECONNREFUSED'')
   \<and> length (posted (since (fresh refusing) (snd (ankiRequest ''deckNames'' (JObj []) 3 1000 (fresh refusing))))) = 3
   \<and> sleeps (since (fresh refusing) (snd (ankiRequest ''deckNames'' (JObj []) 3 1000 (fresh refusing)))) = [1000, 2000]"
proof -
  let ?r = "\<lparr>action = ''deckNames'', version = 6, params = JObj []\<rparr>"
  have h: "\<forall>k<3. transport_failure (backend (fresh refusing) (posts (fresh refusing) + k) ?r)"
    by (simp add: fresh_def refusing_def transport_failure_def)
  from transport_failures_exhaust_retries [of 3 "fresh refusing" "''deckNames''" "JObj []" 1000, OF _ h]
  obtain e w' where r: "ankiRequest ''deckNames'' (JObj []) 3 1000 (fresh refusing) = (Inl e, w')"
    and e: "settle ''deckNames'' (backend (fresh refusing) (posts (fresh refusing) + (3 - 1)) ?r) = Inl e"
    and p: "posted (since (fresh refusing) w') = replicate 3 ?r"
    and s: "sleeps (since (fresh refusing) w') = map (\<lambda>k. 1000 * 2 ^ k) [0..<3 - 1]"
    by auto
  from e have "e = SocketError ''ECONNREFUSED''"
    by (simp add: fresh_def refusing_def settle_def)
  moreover have "map (\<lambda>k. 1000 * 2 ^ k) [0..<3 - 1] = [1000, 2000::nat]"
    by (simp add: upt_rec)
  ultimately show ?thesis using r p s
    by (simp add: fresh_def refusing_def transport_failure_def)
qed

text \<open>
  Claim C1, as amended. A 200 response with a truthy \<^verbatim>\<open>error\<close>, or with no \<^verbatim>\<open>result\<close>
  for an action outside the allow-list, fails its attempt like any other failure:
  the one \<^verbatim>\<open>catch\<close> of the loop retries it. When each of the \<open>retries\<close> attempts
  (\<open>retries\<close> at least 1) gets such a response, \<^verbatim>\<open>ankiRequest\<close> posts the request
  exactly \<open>retries\<close> times with the doubling waits in between and fails with the
  error of the last response; the attempt count is 1 and there is no wait exactly
  when \<open>retries\<close> is 1.
\<close>

theorem semantic_failures_are_retried:
  assumes "0 < retries"
    and "\<forall>k<retries. semantic_failure a (backend w (posts w + k) \<lparr>action = a, version = 6, params = p\<rparr>)"
  shows "\<exists>e w'. ankiRequest a p retries delay w = (Inl e, w')
           \<and> settle a (backend w (posts w + (retries - 1)) \<lparr>action = a, version = 6, params = p\<rparr>) = Inl e
           \<and> semantic_error e
           \<and> since w w' = Invoke a p # schedule \<lparr>action = a, version = 6, params = p\<rparr> retries delay
           \<and> length (posted (since w w')) = retries
           \<and> sleeps (since w w') = map (\<lambda>k. delay * 2 ^ k) [0..<retries - 1]"
proof -
  let ?r = "\<lparr>action = a, version = 6, params = p\<rparr>"
  have fails: "\<forall>k<retries. \<exists>e'. settle a (backend w (posts w + k) ?r) = Inl e'"
    using assms(2) semantic_failure_settle by blast
  from ankiRequest_fail_all [OF assms(1) fails, of delay]
  obtain e w' where r: "ankiRequest a p retries delay w = (Inl e, w')"
    and e: "settle a (backend w (posts w + (retries - 1)) ?r) = Inl e"
    and t: "since w w' = Invoke a p # schedule ?r retries delay"
    by blast
  have "retries - 1 < retries" using assms(1) by simp
  then have "semantic_failure a (backend w (posts w + (retries - 1)) ?r)"
    using assms(2) by blast
  with e have te: "semantic_error e"
    using semantic_failure_settle [of a "backend w (posts w + (retries - 1)) ?r"] by simp
  have "length (posted (since w w')) = retries"
    by (simp add: t posted_Invoke posted_schedule)
  moreover have "sleeps (since w w') = map (\<lambda>k. delay * 2 ^ k) [0..<retries - 1]"
    by (simp add: t sleeps_Invoke sleeps_schedule)
  ultimately show ?thesis using r e te t by blast
qed

text \<open>With three attempts and a base delay of 250, a request that is rejected every time
  is posted three times, with waits of 250 and 500.\<close>

theorem semantic_failures_are_retried_witness:
  "(0::nat) < 3
   \<and> semantic_failure ''addNote''
         (backend (fresh rejecting) 0 \<lparr>action = ''addNote'', version = 6, params = JObj []\<rparr>)
   \<and> semantic_failure ''addNote''
         (backend (fresh rejecting) 1 \<lparr>action = ''addNote'', version = 6, params = JObj []\<rparr>)
   \<and> semantic_failure ''addNote''
         (backend (fresh rejecting) 2 \<lparr>action = ''addNote'', version = 6, params = JObj []\<rparr>)
   \<and> fst (ankiRequest ''addNote'' (JObj []) 3 250 (fresh rejecting))
       = Inl (AnkiConnectError (JStr ''cannot create note because it is a duplicate''))
   \<and> length (posted (since (fresh rejecting) (snd (ankiRequest ''addNote'' (JObj []) 3 250 (fresh rejecting))))) = 3
   \<and> sleeps (since (fresh rejecting) (snd (ankiRequest ''addNote'' (JObj []) 3 250 (fresh rejecting))))
       = [250, 500]"
proof -
  let ?r = "\<lparr>action = ''addNote'', version = 6, params = JObj []\<rparr>"
  have h: "\<forall>k<3. semantic_failure ''addNote'' (backend (fresh rejecting) (posts (fresh rejecting) + k) ?r)"
    by (simp add: fresh_def rejecting_def envelope_def semantic_failure_def)
  from semantic_failures_are_retried [of 3 "''addNote''" "fresh rejecting" "JObj []" 250, OF _ h]
  obtain e w' where r: "ankiRequest ''addNote'' (JObj []) 3 250 (fresh rejecting) = (Inl e, w')"
    and e: "settle ''addNote'' (backend (fresh rejecting) (posts (fresh rejecting) + (3 - 1)) ?r) = Inl e"
    and p: "length (posted (since (fresh rejecting) w')) = 3"
    and s: "sleeps (since (fresh rejecting) w') = map (\<lambda>k. 250 * 2 ^ k) [0..<3 - 1]"
    by auto
  from e have "e = AnkiConnectError (JStr ''cannot create note because it is a duplicate'')"
    by (simp add: fresh_def rejecting_def envelope_def settle_def)
  moreover have "map (\<lambda>k. 250 * 2 ^ k) [0..<3 - 1] = [250, 500::nat]"
    by (simp add: upt_rec)
  ultimately show ?thesis using r p s
    by (simp add: fresh_def rejecting_def envelope_def semantic_failure_def)
qed

text \<open>
  Claim C1 as stated fails: with the defaults, a request that the backend rejects
  with an error message is posted three times, with waits of 1000 and 2000.
\<close>

theorem semantic_error_first_attempt_counterexample:
  "semantic_failure ''addNote'' (rejecting 0 \<lparr>action = ''addNote'', version = 6, params = JObj []\<rparr>)
   \<and> fst (anki ''addNote'' (JObj []) (fresh rejecting))
       = Inl (AnkiConnectError (JStr ''cannot create note because it is a duplicate''))
   \<and> length (posted (trace (snd (anki ''addNote'' (JObj []) (fresh rejecting))))) = 3
   \<and> length (posted (trace (snd (anki ''addNote'' (JObj []) (fresh rejecting))))) \<noteq> 1
   \<and> sleeps (trace (snd (anki ''addNote'' (JObj []) (fresh rejecting)))) = [1000, 2000]"
  by (simp add: anki_def ankiRequest_def attempts.simps http_post_def emit_def sleep_def
      fresh_def rejecting_def envelope_def settle_def semantic_failure_def posted_def sleeps_def)





section \<open>The projection of a note\<close>

text \<open>A value with one readable property is not \<^verbatim>\<open>undefined\<close> or \<^verbatim>\<open>null\<close>: every property
  can be read.\<close>

lemma get_Inr_tags: "get note k = Inr v \<Longrightarrow> \<exists>ts. get note k' = Inr ts"
  by (cases "note") simp_all



text \<open>
  Claim C4, as amended. For every raw note with model name \<^verbatim>\<open>Cloze\<close> (with an array
  \<^verbatim>\<open>cards\<close> and a \<^verbatim>\<open>Text\<close> field): when the \<^verbatim>\<open>Back Extra\<close> field is present, the front is
  the value of \<^verbatim>\<open>Text\<close> and the back is the value of \<^verbatim>\<open>Back Extra\<close> if that is not
  empty, else the placeholder \<^verbatim>\<open>[Cloze deletion]\<close>; when the \<^verbatim>\<open>Back Extra\<close> field is
  entirely absent, the projection raises a TypeError.
\<close>

theorem cloze_projection:
  assumes "get note ''modelName'' = Inr (JStr ''Cloze'')"
    and "get note ''cards'' = Inr (JArr cs)"
    and "get note ''fields'' = Inr (JObj fs)"
    and "map_of fs ''Text'' = Some (JObj tkv)"
  shows "(\<forall>bkv. map_of fs ''Back Extra'' = Some (JObj bkv) \<longrightarrow>
            (\<exists>ts. get note ''tags'' = Inr ts
               \<and> cardInfo note
                   = Inr \<lparr>cardId = first cs, Front = bound tkv ''value'',
                          Back = (if truthy (bound bkv ''value'') then bound bkv ''value''
                                  else JStr ''[Cloze deletion]''),
                          tags = ts\<rparr>))
         \<and> (map_of fs ''Back Extra'' = None \<longrightarrow> cardInfo note = Inl TypeError)"
proof -
  from assms(1) obtain ts where "get note ''tags'' = Inr ts"
    using get_Inr_tags by blast
  with assms show ?thesis
    by (simp add: cardInfo_def seq_def first_def bound_def)
qed

text \<open>A Cloze note with a back extra, and one whose back extra is empty.\<close>

theorem cloze_projection_witness:
  "cardInfo (cloze_note (JStr ''the capital'') (JNum 7))
     = Inr \<lparr>cardId = JNum 7, Front = JStr ''{{c1::Paris}}'', Back = JStr ''the capital'',
            tags = JArr [JStr ''geo'']\<rparr>
   \<and> cardInfo (cloze_note (JStr '''') (JNum 7))
     = Inr \<lparr>cardId = JNum 7, Front = JStr ''{{c1::Paris}}'', Back = JStr ''[Cloze deletion]'',
            tags = JArr [JStr ''geo'']\<rparr>"
  using cloze_projection [of "cloze_note (JStr ''the capital'') (JNum 7)" "[JNum 7]"
      "[(''Text'', JObj [(''value'', JStr ''{{c1::Paris}}''), (''order'', JNum 0)]),
        (''Back Extra'', JObj [(''value'', JStr ''the capital''), (''order'', JNum 1)])]"
      "[(''value'', JStr ''{{c1::Paris}}''), (''order'', JNum 0)]"]
    cloze_projection [of "cloze_note (JStr '''') (JNum 7)" "[JNum 7]"
      "[(''Text'', JObj [(''value'', JStr ''{{c1::Paris}}''), (''order'', JNum 0)]),
        (''Back Extra'', JObj [(''value'', JStr ''''), (''order'', JNum 1)])]"
      "[(''value'', JStr ''{{c1::Paris}}''), (''order'', JNum 0)]"]
  by (simp add: cloze_note_def first_def bound_def)

text \<open>
  Claim C4 as stated fails: a Cloze note without the \<^verbatim>\<open>Back Extra\<close> field is not
  projected to the placeholder; reading \<^verbatim>\<open>.value\<close> of the missing field throws, and
  the mapping of a list that holds such a note throws with it.
\<close>

theorem cloze_without_back_extra_counterexample:
  "get bare_cloze_note ''modelName'' = Inr (JStr ''Cloze'')
   \<and> seq (get bare_cloze_note ''fields'') (\<lambda>f. get f ''Back Extra'') = Inr JUndefined
   \<and> cardInfo bare_cloze_note = Inl TypeError
   \<and> map_cards [cloze_note (JStr ''x'') (JNum 2), bare_cloze_note] = Inl TypeError"
  by (simp add: bare_cloze_note_def cloze_note_def cardInfo_def seq_def)

section \<open>What a handler adds to the trace\<close>

lemma growsI:
  "backend w' = backend w \<Longrightarrow> trace w' = trace w @ evs \<Longrightarrow> list_all Q evs \<Longrightarrow> grows Q w w'"
  by (simp add: grows_def since_def)

lemma growsE:
  assumes "grows Q w w'"
  obtains evs where "backend w' = backend w" and "trace w' = trace w @ evs"
    and "list_all Q evs" and "since w w' = evs"
proof -
  from assms have t: "take (length (trace w)) (trace w') = trace w"
    and q: "list_all Q (since w w')" and b: "backend w' = backend w"
    by (simp_all add: grows_def)
  have "trace w' = trace w @ since w w'"
    using t append_take_drop_id [of "length (trace w)" "trace w'"] by (simp add: since_def)
  with b q show ?thesis using that by blast
qed

lemma grows_refl: "grows Q w w"
  by (rule growsI [where evs = "[]"]) simp_all

lemma grows_trans:
  assumes "grows Q w w1" and "grows Q w1 w2"
  shows "grows Q w w2"
proof -
  from assms(1) obtain evs1 where 1: "backend w1 = backend w" "trace w1 = trace w @ evs1" "list_all Q evs1"
    by (rule growsE)
  from assms(2) obtain evs2 where 2: "backend w2 = backend w1" "trace w2 = trace w1 @ evs2" "list_all Q evs2"
    by (rule growsE)
  show ?thesis
    by (rule growsI [where evs = "evs1 @ evs2"]) (simp_all add: 1 2)
qed

lemma grows_mono:
  assumes "grows Q w w'" and "\<And>e. Q e \<Longrightarrow> Q' e"
  shows "grows Q' w w'"
proof -
  from assms(1) obtain evs where 1: "backend w' = backend w" "trace w' = trace w @ evs" "list_all Q evs"
    by (rule growsE)
  from 1(3) assms(2) have "list_all Q' evs" by (simp add: list_all_iff)
  with 1 show ?thesis by (blast intro: growsI)
qed

lemma grows_since: "grows Q w w' \<Longrightarrow> e \<in> set (since w w') \<Longrightarrow> Q e"
  by (simp add: grows_def list_all_iff)

lemma grows_emit: "Q e \<Longrightarrow> grows Q w (emit e w)"
  by (rule growsI [where evs = "[e]"]) (simp_all add: emit_def)

lemma grows_post:
  "Q (Post r) \<Longrightarrow> grows Q w (snd (http_post r w))"
  by (rule growsI [where evs = "[Post r]"]) (simp_all add: http_post_def emit_def)

lemma attempts_grows:
  "grows (about a p) w (snd (attempts a p retries attempt delay w))"
proof (induction "Suc retries - attempt" arbitrary: attempt delay w)
  case 0
  then have "\<not> attempt \<le> retries" by simp
  then show ?case by (simp add: attempts.simps [of a p retries attempt] grows_refl)
next
  case (Suc n)
  let ?r = "\<lparr>action = a, version = 6, params = p\<rparr>"
  let ?w1 = "snd (http_post ?r w)"
  from Suc(2) have le: "attempt \<le> retries" by simp
  have g1: "grows (about a p) w ?w1"
    by (rule grows_post) (simp add: about_def)
  show ?case
  proof (cases "settle a (fst (http_post ?r w))")
    case (Inr v)
    have "attempts a p retries attempt delay w = (Inr v, ?w1)"
      using Inr le by (subst attempts.simps) (simp add: case_prod_beta)
    with g1 show ?thesis by simp
  next
    case (Inl e)
    show ?thesis
    proof (cases "attempt = retries")
      case True
      have "attempts a p retries attempt delay w = (Inl e, ?w1)"
        using Inl le True by (subst attempts.simps) (simp add: case_prod_beta)
      with g1 show ?thesis by simp
    next
      case False
      have g2: "grows (about a p) ?w1 (sleep delay ?w1)"
        unfolding sleep_def by (rule grows_emit) (simp add: about_def)
      have "n = Suc retries - Suc attempt" using Suc(2) by simp
      then have g3: "grows (about a p) (sleep delay ?w1)
          (snd (attempts a p retries (Suc attempt) (delay * 2) (sleep delay ?w1)))"
        by (rule Suc(1))
      have "grows (about a p) w (snd (attempts a p retries (Suc attempt) (delay * 2) (sleep delay ?w1)))"
        using g1 g2 g3 by (blast intro: grows_trans)
      moreover have "attempts a p retries attempt delay w
          = attempts a p retries (Suc attempt) (delay * 2) (sleep delay ?w1)"
        using Inl le False by (subst attempts.simps) (simp add: case_prod_beta)
      ultimately show ?thesis by simp
    qed
  qed
qed

lemma ankiRequest_grows: "grows (about a p) w (snd (ankiRequest a p retries delay w))"
proof -
  have "grows (about a p) w (emit (Invoke a p) w)"
    by (rule grows_emit) (simp add: about_def)
  then show ?thesis
    unfolding ankiRequest_def using attempts_grows by (blast intro: grows_trans)
qed

lemma anki_grows: "grows (about a p) w (snd (anki a p w))"
  by (simp add: anki_def ankiRequest_grows)

lemma anki_grows_Q: "(\<And>e. about a p e \<Longrightarrow> Q e) \<Longrightarrow> grows Q w (snd (anki a p w))"
  using anki_grows grows_mono by blast

lemma and_then_grows:
  assumes "grows Q w (snd m)"
    and "\<And>x w1. m = (Inr x, w1) \<Longrightarrow> grows Q w1 (snd (f x w1))"
  shows "grows Q w (snd (and_then m f))"
proof (cases m)
  case (Pair r w1)
  show ?thesis
  proof (cases r)
    case (Inl e)
    with Pair assms(1) show ?thesis by (simp add: and_then_def)
  next
    case (Inr x)
    with Pair assms(1) have "grows Q w w1" by simp
    moreover have "grows Q w1 (snd (f x w1))" using Pair Inr by (intro assms(2)) simp
    ultimately have "grows Q w (snd (f x w1))" by (rule grows_trans)
    with Pair Inr show ?thesis by (simp add: and_then_def)
  qed
qed

lemma pure_grows: "grows Q w (snd (pure r w))"
  by (simp add: pure_def grows_refl)

lemma actions_about: "about a p e \<Longrightarrow> set (actions [e]) \<subseteq> {a}"
  by (cases e) (auto simp: about_def actions_def)

lemma actions_member: "a \<in> set (actions evs) \<Longrightarrow> \<exists>e\<in>set evs. a \<in> set (actions [e])"
  by (induction evs) (auto simp: actions_def)

lemma grows_actions:
  assumes "grows (\<lambda>e. a \<notin> set (actions [e])) w w'"
  shows "a \<notin> set (actions (since w w'))"
proof
  assume "a \<in> set (actions (since w w'))"
  then obtain e where "e \<in> set (since w w')" and "a \<in> set (actions [e])"
    using actions_member by blast
  with grows_since [OF assms] show False by blast
qed

lemma grows_posted:
  assumes "grows (\<lambda>e. \<forall>r. e = Post r \<longrightarrow> P r) w w'" and "r \<in> set (posted (since w w'))"
  shows "P r"
proof -
  from assms(2) have "Post r \<in> set (since w w')"
    by (auto simp: posted_def split: event.splits)
  with grows_since [OF assms(1)] show ?thesis by blast
qed


lemma note_of_card_grows:
  assumes "\<And>e. about ''cardsToNotes'' (JObj [(''cards'', JArr [JNum cid])]) e \<Longrightarrow> Q e"
  shows "grows Q w (snd (note_of_card cid w))"
  unfolding note_of_card_def
proof (rule and_then_grows)
  show "grows Q w (snd (anki ''cardsToNotes'' (JObj [(''cards'', JArr [JNum cid])]) w))"
    using assms by (rule anki_grows_Q)
next
  fix r w1
  show "grows Q w1 (snd (and_then (pure (get r ''length'') w1)
          (\<lambda>len w1. if len = JNum 0 then (Inl (NoNoteFound cid), w1) else pure (index0 r) w1)))"
    by (rule and_then_grows) (simp_all add: pure_grows grows_refl)
qed

lemma replace_tags_grows:
  assumes "\<And>p e. about ''replaceTags'' p e \<Longrightarrow> Q e"
  shows "grows Q w (snd (replace_tags noteId tgs w))"
proof (cases tgs)
  case None
  then show ?thesis by (simp add: replace_tags_def grows_refl)
next
  case (Some ts)
  have "grows Q w (snd (and_then
          (anki ''replaceTags'' (JObj [(''notes'', JArr [noteId]), (''tags'', JStr (join '' '' ts))]) w)
          (\<lambda>_ w'. (Inr (), w'))))"
    by (rule and_then_grows) (simp_all add: anki_grows_Q assms grows_refl)
  with Some show ?thesis by (simp add: replace_tags_def)
qed


lemma not_action_about: "about a p e \<Longrightarrow> a \<noteq> b \<Longrightarrow> b \<notin> set (actions [e])"
  using actions_about [of a p e] by auto

lemma written_fields:
  "written \<lparr>action = a, version = v, params = JObj [(''note'', JObj [(''id'', nid), (''fields'', JObj fs)])]\<rparr> k
     = Inr (bound fs k)"
  by (simp add: written_def seq_def bound_def)

lemma field_if_nonempty: "bound (field_if k1 s1 @ field_if k2 s2) k \<noteq> JStr []"
  by (auto simp: field_if_def bound_def split: option.splits)

lemma cloze_fields_nonempty:
  "cloze_fields text backExtra = Inr fs \<Longrightarrow> k \<noteq> ''Back Extra'' \<Longrightarrow> bound fs k \<noteq> JStr []"
  by (auto simp: cloze_fields_def seq_def field_if_defined_def bound_def
      split: option.splits if_splits)

lemma update_card_grows:
  assumes c: "\<And>p e. about ''cardsToNotes'' p e \<Longrightarrow> Q e"
    and u: "\<And>noteId e. given front \<or> given back \<Longrightarrow>
          about ''updateNoteFields''
            (JObj [(''note'', JObj [(''id'', noteId),
               (''fields'', JObj (field_if ''Front'' front @ field_if ''Back'' back))])]) e \<Longrightarrow> Q e"
    and r: "\<And>p e. about ''replaceTags'' p e \<Longrightarrow> Q e"
  shows "grows Q w (snd (update_card cid front back tgs w))"
  unfolding update_card_def
proof (rule and_then_grows)
  show "grows Q w (snd (note_of_card cid w))"
    by (rule note_of_card_grows) (rule c)
next
  fix noteId w1
  let ?m = "if given front \<or> given back
            then anki ''updateNoteFields''
                   (JObj [(''note'', JObj [(''id'', noteId),
                      (''fields'', JObj (field_if ''Front'' front @ field_if ''Back'' back))])]) w1
            else (Inr JUndefined, w1)"
  have "grows Q w1 (snd ?m)"
    using u [of noteId] by (simp add: anki_grows_Q grows_refl)
  then show "grows Q w1 (snd (and_then ?m (\<lambda>_ w2. replace_tags noteId tgs w2)))"
    by (rule and_then_grows) (rule replace_tags_grows, rule r)
qed

lemma update_cloze_card_grows:
  assumes c: "\<And>p e. about ''cardsToNotes'' p e \<Longrightarrow> Q e"
    and n: "\<And>p e. about ''notesInfo'' p e \<Longrightarrow> Q e"
    and u: "\<And>noteId fs e. given text \<or> given backExtra \<Longrightarrow> cloze_fields text backExtra = Inr fs \<Longrightarrow>
          about ''updateNoteFields''
            (JObj [(''note'', JObj [(''id'', noteId), (''fields'', JObj fs)])]) e \<Longrightarrow> Q e"
    and r: "\<And>p e. about ''replaceTags'' p e \<Longrightarrow> Q e"
  shows "grows Q w (snd (update_cloze_card cid text backExtra tgs w))"
  unfolding update_cloze_card_def
proof (rule and_then_grows)
  show "grows Q w (snd (note_of_card cid w))"
    by (rule note_of_card_grows) (rule c)
next
  fix noteId w1
  show "grows Q w1 (snd (and_then (anki ''notesInfo'' (JObj [(''notes'', JArr [noteId])]) w1)
            (\<lambda>noteInfo w2.
               and_then (pure (seq (index0 noteInfo) (\<lambda>n. get n ''modelName'')) w2)
                 (\<lambda>modelName w2.
                    if modelName \<noteq> JStr ''Cloze'' then (Inl NotClozeCard, w2)
                    else and_then
                           (if given text \<or> given backExtra
                            then and_then (pure (cloze_fields text backExtra) w2)
                                   (\<lambda>fields w2.
                                      anki ''updateNoteFields''
                                        (JObj [(''note'', JObj [(''id'', noteId),
                                           (''fields'', JObj fields)])]) w2)
                            else (Inr JUndefined, w2))
                           (\<lambda>_ w3. replace_tags noteId tgs w3)))))"
  proof (rule and_then_grows)
    show "grows Q w1 (snd (anki ''notesInfo'' (JObj [(''notes'', JArr [noteId])]) w1))"
      by (rule anki_grows_Q) (rule n)
  next
    fix noteInfo w2
    show "grows Q w2 (snd (and_then (pure (seq (index0 noteInfo) (\<lambda>n. get n ''modelName'')) w2)
                 (\<lambda>modelName w2.
                    if modelName \<noteq> JStr ''Cloze'' then (Inl NotClozeCard, w2)
                    else and_then
                           (if given text \<or> given backExtra
                            then and_then (pure (cloze_fields text backExtra) w2)
                                   (\<lambda>fields w2.
                                      anki ''updateNoteFields''
                                        (JObj [(''note'', JObj [(''id'', noteId),
                                           (''fields'', JObj fields)])]) w2)
                            else (Inr JUndefined, w2))
                           (\<lambda>_ w3. replace_tags noteId tgs w3))))"
    proof (rule and_then_grows)
      show "grows Q w2 (snd (pure (seq (index0 noteInfo) (\<lambda>n. get n ''modelName'')) w2))"
        by (rule pure_grows)
    next
      fix modelName w3
      let ?m = "if given text \<or> given backExtra
                then and_then (pure (cloze_fields text backExtra) w3)
                       (\<lambda>fields w2.
                          anki ''updateNoteFields''
                            (JObj [(''note'', JObj [(''id'', noteId), (''fields'', JObj fields)])]) w2)
                else (Inr JUndefined, w3)"
      have m: "grows Q w3 (snd ?m)"
      proof (cases "given text \<or> given backExtra")
        case False
        then show ?thesis by (simp add: grows_refl)
      next
        case True
        have "grows Q w3 (snd (and_then (pure (cloze_fields text backExtra) w3)
                       (\<lambda>fields w2.
                          anki ''updateNoteFields''
                            (JObj [(''note'', JObj [(''id'', noteId), (''fields'', JObj fields)])]) w2)))"
        proof (rule and_then_grows)
          show "grows Q w3 (snd (pure (cloze_fields text backExtra) w3))" by (rule pure_grows)
        next
          fix fs w4
          assume "pure (cloze_fields text backExtra) w3 = (Inr fs, w4)"
          then have "cloze_fields text backExtra = Inr fs" by (simp add: pure_def)
          with True show "grows Q w4 (snd (anki ''updateNoteFields''
                (JObj [(''note'', JObj [(''id'', noteId), (''fields'', JObj fs)])]) w4))"
            by (intro anki_grows_Q u)
        qed
        with True show ?thesis by simp
      qed
      have "grows Q w3 (snd (and_then ?m (\<lambda>_ w3. replace_tags noteId tgs w3)))"
        using m by (rule and_then_grows) (rule replace_tags_grows, rule r)
      then show "grows Q w3
          (snd (if modelName \<noteq> JStr ''Cloze'' then (Inl NotClozeCard, w3)
                else and_then ?m (\<lambda>_ w3. replace_tags noteId tgs w3)))"
        by (simp add: grows_refl)
    qed
  qed
qed


lemma anki_first_attempt:
  "settle a (backend w (posts w) \<lparr>action = a, version = 6, params = p\<rparr>) = Inr v \<Longrightarrow>
   anki a p w = (Inr v, w\<lparr>posts := Suc (posts w),
       trace := trace w @ [Invoke a p, Post \<lparr>action = a, version = 6, params = p\<rparr>]\<rparr>)"
  unfolding anki_def ankiRequest_def
  using attempts_success [of a "emit (Invoke a p) w" p v 1 3 1000]
  by (simp add: emit_def)

text \<open>
  Claim C7. For every \<^verbatim>\<open>update-cloze-card\<close> invocation whose target note (the first
  note that \<^verbatim>\<open>notesInfo\<close> describes for the note of the card) has a model name other
  than \<^verbatim>\<open>Cloze\<close>, the operation fails with ``This card is not a cloze deletion
  card'' in the world the two lookups left: no \<^verbatim>\<open>updateNoteFields\<close> and no
  \<^verbatim>\<open>replaceTags\<close> call or request has been issued.
\<close>

theorem non_cloze_note_is_never_written:
  assumes "note_of_card cid w = (Inr noteId, w1)"
    and "anki ''notesInfo'' (JObj [(''notes'', JArr [noteId])]) w1 = (Inr noteInfo, w2)"
    and "seq (index0 noteInfo) (\<lambda>n. get n ''modelName'') = Inr modelName"
    and "modelName \<noteq> JStr ''Cloze''"
  shows "update_cloze_card cid text backExtra tgs w = (Inl NotClozeCard, w2)
         \<and> ''updateNoteFields'' \<notin> set (actions (since w w2))
         \<and> ''replaceTags'' \<notin> set (actions (since w w2))"
proof -
  have r: "update_cloze_card cid text backExtra tgs w = (Inl NotClozeCard, w2)"
    using assms by (simp add: update_cloze_card_def and_then_def pure_def)
  have "grows (\<lambda>e. b \<notin> set (actions [e])) w w2"
    if "b \<noteq> ''cardsToNotes''" and "b \<noteq> ''notesInfo''" for b
  proof (rule grows_trans)
    have "grows (\<lambda>e. b \<notin> set (actions [e])) w (snd (note_of_card cid w))"
      using that by (intro note_of_card_grows not_action_about) auto
    then show "grows (\<lambda>e. b \<notin> set (actions [e])) w w1" by (simp add: assms(1))
    have "grows (\<lambda>e. b \<notin> set (actions [e])) w1
        (snd (anki ''notesInfo'' (JObj [(''notes'', JArr [noteId])]) w1))"
      using that by (intro anki_grows_Q not_action_about) auto
    then show "grows (\<lambda>e. b \<notin> set (actions [e])) w1 w2" by (simp add: assms(2))
  qed
  from this [of "''updateNoteFields''"] this [of "''replaceTags''"] r
  show ?thesis by (simp add: grows_actions)
qed

text \<open>An update of a Basic note with a valid cloze text, a back extra and tags: only the
  two lookups reach the backend.\<close>

theorem non_cloze_note_is_never_written_witness:
  "fst (update_cloze_card 5 (Some ''{{c1::Paris}} is the capital'') (Some ''France'') (Some [''geo''])
          (fresh (serving [] basic_note))) = Inl NotClozeCard
   \<and> actions (trace (snd (update_cloze_card 5 (Some ''{{c1::Paris}} is the capital'') (Some ''France'')
          (Some [''geo'']) (fresh (serving [] basic_note)))))
       = [''cardsToNotes'', ''cardsToNotes'', ''notesInfo'', ''notesInfo'']"
proof -
  let ?w = "fresh (serving [] basic_note)"
  let ?w1 = "snd (note_of_card 5 ?w)"
  let ?w2 = "snd (anki ''notesInfo'' (JObj [(''notes'', JArr [JNum 1])]) ?w1)"
  have w1: "note_of_card 5 ?w = (Inr (JNum 1),
      ?w\<lparr>posts := 1, trace := [Invoke ''cardsToNotes'' (JObj [(''cards'', JArr [JNum 5])]),
        Post \<lparr>action = ''cardsToNotes'', version = 6, params = JObj [(''cards'', JArr [JNum 5])]\<rparr>]\<rparr>)"
    by (simp add: note_of_card_def and_then_def pure_def anki_first_attempt fresh_def serving_def
        envelope_def settle_def)
  then have h1: "note_of_card 5 ?w = (Inr (JNum 1), ?w1)" by simp
  have w2: "anki ''notesInfo'' (JObj [(''notes'', JArr [JNum 1])]) ?w1 = (Inr (JArr [basic_note (JNum 1)]),
      ?w1\<lparr>posts := 2, trace := trace ?w1 @ [Invoke ''notesInfo'' (JObj [(''notes'', JArr [JNum 1])]),
        Post \<lparr>action = ''notesInfo'', version = 6, params = JObj [(''notes'', JArr [JNum 1])]\<rparr>]\<rparr>)"
    unfolding w1 snd_conv
    by (simp add: anki_first_attempt fresh_def serving_def envelope_def settle_def requested_def)
  then have h2: "anki ''notesInfo'' (JObj [(''notes'', JArr [JNum 1])]) ?w1
      = (Inr (JArr [basic_note (JNum 1)]), ?w2)" by simp
  have h3: "seq (index0 (JArr [basic_note (JNum 1)])) (\<lambda>n. get n ''modelName'') = Inr (JStr ''Basic'')"
    by (simp add: seq_def basic_note_def)
  have t: "actions (trace ?w2) = [''cardsToNotes'', ''cardsToNotes'', ''notesInfo'', ''notesInfo'']"
    unfolding w2 snd_conv unfolding w1 snd_conv
    by (simp add: actions_def fresh_def)
  from non_cloze_note_is_never_written [OF h1 h2 h3, of "Some ''{{c1::Paris}} is the capital''"
      "Some ''France''" "Some [''geo'']"] t
  show ?thesis by simp
qed

text \<open>
  Claim C10. In \<^verbatim>\<open>update-card\<close> and \<^verbatim>\<open>update-cloze-card\<close> an empty \<^verbatim>\<open>front\<close>, \<^verbatim>\<open>back\<close> or
  \<^verbatim>\<open>text\<close> behaves exactly as a missing one; when no non-empty field value is given
  (front and back, respectively text and back extra), \<^verbatim>\<open>updateNoteFields\<close> is neither
  called nor posted; and no request that either handler posts sets \<^verbatim>\<open>Front\<close>, \<^verbatim>\<open>Back\<close>
  or \<^verbatim>\<open>Text\<close> to the empty string.
\<close>

theorem empty_field_arguments_are_skipped:
  "update_card cid (Some []) back tgs w = update_card cid None back tgs w
   \<and> update_card cid front (Some []) tgs w = update_card cid front None tgs w
   \<and> update_cloze_card cid (Some []) backExtra tgs w = update_cloze_card cid None backExtra tgs w
   \<and> (\<not> given front \<and> \<not> given back \<longrightarrow>
        ''updateNoteFields'' \<notin> set (actions (since w (snd (update_card cid front back tgs w)))))
   \<and> (\<not> given text \<and> \<not> given backExtra \<longrightarrow>
        ''updateNoteFields'' \<notin> set (actions (since w (snd (update_cloze_card cid text backExtra tgs w)))))
   \<and> (\<forall>r \<in> set (posted (since w (snd (update_card cid front back tgs w)))). \<not> clears r)
   \<and> (\<forall>r \<in> set (posted (since w (snd (update_cloze_card cid text backExtra tgs w)))). \<not> clears r)"
proof (intro conjI impI ballI)
  show "update_card cid (Some []) back tgs w = update_card cid None back tgs w"
    by (simp add: update_card_def given_def field_if_def cong: if_cong)
  show "update_card cid front (Some []) tgs w = update_card cid front None tgs w"
    by (simp add: update_card_def given_def field_if_def cong: if_cong)
  show "update_cloze_card cid (Some []) backExtra tgs w = update_cloze_card cid None backExtra tgs w"
    by (simp add: update_cloze_card_def given_def cloze_fields_def field_if_def cong: if_cong)
next
  assume "\<not> given front \<and> \<not> given back"
  then have "grows (\<lambda>e. ''updateNoteFields'' \<notin> set (actions [e])) w
      (snd (update_card cid front back tgs w))"
    by (intro update_card_grows not_action_about) auto
  then show "''updateNoteFields'' \<notin> set (actions (since w (snd (update_card cid front back tgs w))))"
    by (rule grows_actions)
next
  assume "\<not> given text \<and> \<not> given backExtra"
  then have "grows (\<lambda>e. ''updateNoteFields'' \<notin> set (actions [e])) w
      (snd (update_cloze_card cid text backExtra tgs w))"
    by (intro update_cloze_card_grows not_action_about) auto
  then show "''updateNoteFields'' \<notin> set (actions (since w (snd (update_cloze_card cid text backExtra tgs w))))"
    by (rule grows_actions)
next
  fix r assume r: "r \<in> set (posted (since w (snd (update_card cid front back tgs w))))"
  have "grows (\<lambda>e. \<forall>r. e = Post r \<longrightarrow> \<not> clears r) w (snd (update_card cid front back tgs w))"
    by (rule update_card_grows)
       (auto simp: about_def clears_def written_fields field_if_nonempty)
  then show "\<not> clears r" using r by (rule grows_posted)
next
  fix r assume r: "r \<in> set (posted (since w (snd (update_cloze_card cid text backExtra tgs w))))"
  have "grows (\<lambda>e. \<forall>r. e = Post r \<longrightarrow> \<not> clears r) w (snd (update_cloze_card cid text backExtra tgs w))"
    by (rule update_cloze_card_grows)
       (auto simp: about_def clears_def written_fields cloze_fields_nonempty)
  then show "\<not> clears r" using r by (rule grows_posted)
qed


text \<open>An empty front with a back: only \<^verbatim>\<open>Back\<close> is written. An empty front alone with
  tags: no field update at all.\<close>

theorem empty_field_arguments_are_skipped_witness:
  "update_card 5 (Some []) (Some ''Paris'') None (fresh (serving [] basic_note))
     = update_card 5 None (Some ''Paris'') None (fresh (serving [] basic_note))
   \<and> posted (trace (snd (update_card 5 (Some []) (Some ''Paris'') None (fresh (serving [] basic_note)))))
     = [\<lparr>action = ''cardsToNotes'', version = 6, params = JObj [(''cards'', JArr [JNum 5])]\<rparr>,
        \<lparr>action = ''updateNoteFields'', version = 6,
         params = JObj [(''note'', JObj [(''id'', JNum 1), (''fields'', JObj [(''Back'', JStr ''Paris'')])])]\<rparr>]
   \<and> \<not> clears \<lparr>action = ''updateNoteFields'', version = 6,
         params = JObj [(''note'', JObj [(''id'', JNum 1), (''fields'', JObj [(''Back'', JStr ''Paris'')])])]\<rparr>
   \<and> \<not> given (Some []) \<and> \<not> given None
   \<and> ''updateNoteFields'' \<notin> set (actions (since (fresh (serving [] basic_note))
         (snd (update_card 5 (Some []) None (Some [''geo'']) (fresh (serving [] basic_note))))))"
proof -
  let ?w = "fresh (serving [] basic_note)"
  have n: "note_of_card 5 ?w = (Inr (JNum 1),
      ?w\<lparr>posts := 1, trace := [Invoke ''cardsToNotes'' (JObj [(''cards'', JArr [JNum 5])]),
        Post \<lparr>action = ''cardsToNotes'', version = 6, params = JObj [(''cards'', JArr [JNum 5])]\<rparr>]\<rparr>)"
    by (simp add: note_of_card_def and_then_def pure_def anki_first_attempt fresh_def serving_def
        envelope_def settle_def)
  have p: "posted (trace (snd (update_card 5 (Some []) (Some ''Paris'') None ?w)))
     = [\<lparr>action = ''cardsToNotes'', version = 6, params = JObj [(''cards'', JArr [JNum 5])]\<rparr>,
        \<lparr>action = ''updateNoteFields'', version = 6,
         params = JObj [(''note'', JObj [(''id'', JNum 1), (''fields'', JObj [(''Back'', JStr ''Paris'')])])]\<rparr>]"
    unfolding update_card_def n
    by (simp add: and_then_def given_def field_if_def replace_tags_def anki_first_attempt
        fresh_def serving_def envelope_def settle_def null_ok_def posted_def)
  have s0: "since ?w w' = trace w'" for w'
    by (simp add: since_def fresh_def)
  have g: "\<not> given (Some []) \<and> \<not> given None"
    by (simp add: given_def)
  note thm1 = empty_field_arguments_are_skipped
    [of 5 "Some ''Paris''" None "?w" "Some []"]
  note thm2 = empty_field_arguments_are_skipped
    [of 5 None "Some [''geo'']" "?w" "Some []"]
  from thm1 have a: "update_card 5 (Some []) (Some ''Paris'') None ?w
      = update_card 5 None (Some ''Paris'') None ?w"
    by blast
  from thm1 have "\<forall>r \<in> set (posted (since ?w (snd (update_card 5 (Some []) (Some ''Paris'') None ?w)))).
      \<not> clears r"
    by blast
  then have c: "\<not> clears \<lparr>action = ''updateNoteFields'', version = 6,
         params = JObj [(''note'', JObj [(''id'', JNum 1), (''fields'', JObj [(''Back'', JStr ''Paris'')])])]\<rparr>"
    unfolding s0 p by simp
  from thm2 g have d: "''updateNoteFields'' \<notin> set (actions (since ?w
         (snd (update_card 5 (Some []) None (Some [''geo'']) ?w))))"
    by blast
  from a p c g d show ?thesis by blast
qed

text \<open>The errors the pipeline can end with.\<close>

lemma attempts_errors:
  "fst (attempts a p retries attempt delay w) = Inl e \<Longrightarrow>
   transport_error e \<or> semantic_error e \<or> e = FailedAfter retries"
proof (induction "Suc retries - attempt" arbitrary: attempt delay w)
  case 0
  then have "\<not> attempt \<le> retries" by simp
  with 0(2) show ?case by (simp add: attempts.simps [of a p retries attempt])
next
  case (Suc n)
  let ?r = "\<lparr>action = a, version = 6, params = p\<rparr>"
  let ?w1 = "snd (http_post ?r w)"
  from Suc(2) have le: "attempt \<le> retries" by simp
  have kinds: "transport_error e' \<or> semantic_error e'" if "settle a oc = Inl e'" for oc e'
    using that
    by (auto simp: settle_def transport_error_def semantic_error_def
        split: outcome.splits option.splits sum.splits if_splits)
  show ?case
  proof (cases "settle a (fst (http_post ?r w))")
    case (Inr v)
    have "attempts a p retries attempt delay w = (Inr v, ?w1)"
      using Inr le by (subst attempts.simps) (simp add: case_prod_beta)
    with Suc(3) show ?thesis by simp
  next
    case (Inl e')
    show ?thesis
    proof (cases "attempt = retries")
      case True
      have "attempts a p retries attempt delay w = (Inl e', ?w1)"
        using Inl le True by (subst attempts.simps) (simp add: case_prod_beta)
      with Suc(3) kinds [OF Inl] show ?thesis by auto
    next
      case False
      have eq: "attempts a p retries attempt delay w
          = attempts a p retries (Suc attempt) (delay * 2) (sleep delay ?w1)"
        using Inl le False by (subst attempts.simps) (simp add: case_prod_beta)
      have m: "n = Suc retries - Suc attempt" using Suc(2) by simp
      have "fst (attempts a p retries (Suc attempt) (delay * 2) (sleep delay ?w1)) = Inl e"
        using Suc(3) eq by simp
      with m show ?thesis by (rule Suc(1))
    qed
  qed
qed

lemma anki_errors:
  "fst (anki a p w) = Inl e \<Longrightarrow> transport_error e \<or> semantic_error e \<or> e = FailedAfter 3"
  unfolding anki_def ankiRequest_def by (rule attempts_errors)

lemma anki_not_MissingCloze: "fst (anki a p w) \<noteq> Inl MissingCloze"
  using anki_errors [of a p w MissingCloze]
  by (auto simp: transport_error_def semantic_error_def)

lemma replace_tags_not_MissingCloze: "fst (replace_tags noteId tgs w) \<noteq> Inl MissingCloze"
proof (cases tgs)
  case None
  then show ?thesis by (simp add: replace_tags_def)
next
  case (Some ts)
  then show ?thesis
    using anki_not_MissingCloze
      [of "''replaceTags''" "JObj [(''notes'', JArr [noteId]), (''tags'', JStr (join '' '' ts))]" w]
    by (auto simp: replace_tags_def and_then_def split: prod.splits sum.splits)
qed

lemma anki_starts_with_Invoke: "\<exists>evs. since w (snd (anki a p w)) = Invoke a p # evs"
proof -
  let ?w0 = "emit (Invoke a p) w"
  have "grows (about a p) ?w0 (snd (attempts a p 3 1 1000 ?w0))" by (rule attempts_grows)
  then obtain evs where "trace (snd (attempts a p 3 1 1000 ?w0)) = trace ?w0 @ evs"
    by (rule growsE)
  then show ?thesis
    by (simp add: anki_def ankiRequest_def since_def emit_def)
qed

section \<open>The cloze handlers\<close>

lemma lookups_leave_other_actions:
  assumes "note_of_card cid w = (r1, w1)"
    and "anki ''notesInfo'' p w1 = (r2, w2)"
    and "b \<noteq> ''cardsToNotes''" and "b \<noteq> ''notesInfo''"
  shows "b \<notin> set (actions (since w w2))"
proof -
  have "grows (\<lambda>e. b \<notin> set (actions [e])) w (snd (note_of_card cid w))"
    using assms(3) by (intro note_of_card_grows not_action_about) auto
  then have 1: "grows (\<lambda>e. b \<notin> set (actions [e])) w w1" by (simp add: assms(1))
  have "grows (\<lambda>e. b \<notin> set (actions [e])) w1 (snd (anki ''notesInfo'' p w1))"
    using assms(4) by (intro anki_grows_Q not_action_about) auto
  then have 2: "grows (\<lambda>e. b \<notin> set (actions [e])) w1 w2" by (simp add: assms(2))
  from 1 2 have "grows (\<lambda>e. b \<notin> set (actions [e])) w w2" by (rule grows_trans)
  then show ?thesis by (rule grows_actions)
qed

lemma has_cloze_nonempty: "has_cloze t \<Longrightarrow> t \<noteq> []"
  by (auto simp: has_cloze_def)

lemma create_cloze_card_sends:
  assumes "has_cloze text"
  shows "create_cloze_card deckName text backExtra tgs w =
     and_then
       (anki ''addNote''
          (JObj [(''note'', JObj
             [(''deckName'', JStr deckName),
              (''modelName'', JStr ''Cloze''),
              (''fields'', JObj
                 [(''Text'', JStr text),
                  (''Back'', JStr (case backExtra of None \<Rightarrow> [] | Some b \<Rightarrow> b))]),
              (''tags'', JArr (map JStr (case tgs of None \<Rightarrow> [] | Some ts \<Rightarrow> ts)))])]) w)
       (\<lambda>_ w'. (Inr (), w'))"
  using assms by (simp add: create_cloze_card_def has_cloze_def)

lemma and_then_unit:
  "snd (and_then m (\<lambda>_ w'. (Inr u, w'))) = snd m"
  "(fst (and_then m (\<lambda>_ w'. (Inr u, w'))) = Inl e) = (fst m = Inl e)"
  by (cases m; cases "fst m"; simp add: and_then_def)+

lemma anki_action_member: "a \<in> set (actions (since w (snd (anki a p w))))"
proof -
  obtain evs where "since w (snd (anki a p w)) = Invoke a p # evs"
    using anki_starts_with_Invoke by blast
  then show ?thesis by (simp add: actions_def)
qed

text \<open>Containment as \<^verbatim>\<open>includes\<close> computes it is an occurrence in the text, and a
  marker pair is an opening \<^verbatim>\<open>{{c\<close> with a closing \<^verbatim>\<open>}}\<close> after it.\<close>

lemma take_is_prefix: "(take (length sub) xs = sub) = (\<exists>post. xs = sub @ post)"
proof
  assume "take (length sub) xs = sub"
  then have "xs = sub @ drop (length sub) xs"
    by (metis append_take_drop_id)
  then show "\<exists>post. xs = sub @ post" ..
next
  assume "\<exists>post. xs = sub @ post"
  then show "take (length sub) xs = sub" by auto
qed

lemma str_includes_occurs:
  "str_includes text sub = (\<exists>pre post. text = pre @ sub @ post)"
proof (induction "text")
  case Nil
  then show ?case by auto
next
  case (Cons c cs)
  show ?case
  proof
    assume "str_includes (c # cs) sub"
    then consider "take (length sub) (c # cs) = sub" | "str_includes cs sub" by auto
    then show "\<exists>pre post. c # cs = pre @ sub @ post"
    proof cases
      case 1
      then obtain post where "c # cs = sub @ post" using take_is_prefix by blast
      then have "c # cs = [] @ sub @ post" by simp
      then show ?thesis by blast
    next
      case 2
      with Cons obtain pre post where "cs = pre @ sub @ post" by blast
      then have "c # cs = (c # pre) @ sub @ post" by simp
      then show ?thesis by blast
    qed
  next
    assume "\<exists>pre post. c # cs = pre @ sub @ post"
    then obtain pre post where eq: "c # cs = pre @ sub @ post" by blast
    show "str_includes (c # cs) sub"
    proof (cases pre)
      case Nil
      with eq have "take (length sub) (c # cs) = sub" using take_is_prefix by fastforce
      then show ?thesis by simp
    next
      case (Cons d pre')
      with eq have "cs = pre' @ sub @ post" by simp
      with Cons.IH have "str_includes cs sub" by blast
      then show ?thesis by simp
    qed
  qed
qed

lemma str_after_Some:
  "str_after text sub = Some rest \<Longrightarrow> \<exists>pre. text = pre @ sub @ rest"
proof (induction "text")
  case Nil
  then show ?case by (simp split: if_splits)
next
  case (Cons c cs)
  show ?case
  proof (cases "take (length sub) (c # cs) = sub")
    case True
    with Cons.prems have "rest = drop (length sub) (c # cs)" by simp
    with True have "c # cs = [] @ sub @ rest"
      by (metis append_Nil append_take_drop_id)
    then show ?thesis by blast
  next
    case False
    with Cons.prems have "str_after cs sub = Some rest" by simp
    with Cons.IH obtain pre where "cs = pre @ sub @ rest" by blast
    then have "c # cs = (c # pre) @ sub @ rest" by simp
    then show ?thesis by blast
  qed
qed

lemma str_after_occurs:
  "text = pre @ sub @ post \<Longrightarrow> \<exists>rest x. str_after text sub = Some rest \<and> rest = x @ post"
proof (induction "text" arbitrary: pre)
  case Nil
  then show ?case by simp
next
  case (Cons c cs)
  show ?case
  proof (cases "take (length sub) (c # cs) = sub")
    case True
    have "drop (length sub) (c # cs) = drop (length sub) (pre @ sub) @ post"
      using Cons.prems by simp
    with True show ?thesis by simp
  next
    case False
    have "pre \<noteq> []"
    proof
      assume "pre = []"
      with Cons.prems have "take (length sub) (c # cs) = sub" by simp
      with False show False by simp
    qed
    then obtain d pre' where p: "pre = d # pre'" by (cases pre) auto
    with Cons.prems have "cs = pre' @ sub @ post" by simp
    from Cons.IH [OF this] False show ?thesis by simp
  qed
qed

lemma marker_pair_ordered:
  "marker_pair text = (\<exists>pre mid post. text = pre @ ''{{c'' @ mid @ ''}}'' @ post)"
proof
  assume "marker_pair text"
  then obtain rest where r: "str_after text ''{{c'' = Some rest" and i: "str_includes rest ''}}''"
    by (auto simp: marker_pair_def split: option.splits)
  from r obtain pre where "text = pre @ ''{{c'' @ rest" using str_after_Some by blast
  moreover from i obtain mid post where "rest = mid @ ''}}'' @ post"
    using str_includes_occurs by blast
  ultimately show "\<exists>pre mid post. text = pre @ ''{{c'' @ mid @ ''}}'' @ post" by blast
next
  assume "\<exists>pre mid post. text = pre @ ''{{c'' @ mid @ ''}}'' @ post"
  then obtain pre mid post where "text = pre @ ''{{c'' @ (mid @ ''}}'' @ post)" by blast
  from str_after_occurs [OF this]
  obtain rest x where r: "str_after text ''{{c'' = Some rest" and "rest = x @ mid @ ''}}'' @ post"
    by blast
  then have "rest = (x @ mid) @ ''}}'' @ post" by simp
  then have "str_includes rest ''}}''" using str_includes_occurs by blast
  with r show "marker_pair text" by (simp add: marker_pair_def)
qed

lemma marker_pair_has_cloze: "marker_pair text \<Longrightarrow> has_cloze text"
proof -
  assume "marker_pair text"
  then obtain pre mid post where t: "text = pre @ ''{{c'' @ mid @ ''}}'' @ post"
    using marker_pair_ordered by blast
  then have "text = pre @ ''{{c'' @ (mid @ ''}}'' @ post)" by simp
  then have a: "str_includes text ''{{c''" using str_includes_occurs by blast
  from t have "text = (pre @ ''{{c'' @ mid) @ ''}}'' @ post" by simp
  then have b: "str_includes text ''}}''" using str_includes_occurs by blast
  from a b show ?thesis by (simp add: has_cloze_def)
qed

lemma lacks_marker_no_pair:
  "\<not> str_includes text ''{{c'' \<or> \<not> str_includes text ''}}'' \<Longrightarrow> \<not> marker_pair text"
  using marker_pair_has_cloze by (auto simp: has_cloze_def)


text \<open>The two lookups of \<^verbatim>\<open>update-cloze-card\<close> are sent.\<close>

lemma since_append:
  assumes "grows Q w w1" and "grows Q' w1 w2"
  shows "since w w2 = since w w1 @ since w1 w2"
proof -
  from assms(1) obtain evs1 where 1: "trace w1 = trace w @ evs1" "since w w1 = evs1"
    by (rule growsE)
  from assms(2) obtain evs2 where 2: "trace w2 = trace w1 @ evs2" "since w1 w2 = evs2"
    by (rule growsE)
  have "since w w2 = evs1 @ evs2" by (simp add: since_def 1 2)
  with 1 2 show ?thesis by simp
qed

lemma actions_append: "actions (xs @ ys) = actions xs @ actions ys"
  by (simp add: actions_def)

lemma note_of_card_world:
  "snd (note_of_card cid w) = snd (anki ''cardsToNotes'' (JObj [(''cards'', JArr [JNum cid])]) w)"
  by (cases "anki ''cardsToNotes'' (JObj [(''cards'', JArr [JNum cid])]) w";
      cases "fst (anki ''cardsToNotes'' (JObj [(''cards'', JArr [JNum cid])]) w)")
     (auto simp: note_of_card_def and_then_def pure_def split: sum.splits)

lemma lookups_are_sent:
  assumes "note_of_card cid w = (r1, w1)"
    and "anki ''notesInfo'' p w1 = (r2, w2)"
  shows "''cardsToNotes'' \<in> set (actions (since w w2)) \<and> ''notesInfo'' \<in> set (actions (since w w2))"
proof -
  let ?c = "JObj [(''cards'', JArr [JNum cid])]"
  have w1: "w1 = snd (anki ''cardsToNotes'' ?c w)"
    using note_of_card_world [of cid w] assms(1) by simp
  have w2: "w2 = snd (anki ''notesInfo'' p w1)" using assms(2) by simp
  have g1: "grows (about ''cardsToNotes'' ?c) w w1" unfolding w1 by (rule anki_grows)
  have g2: "grows (about ''notesInfo'' p) w1 w2" unfolding w2 by (rule anki_grows)
  have "since w w2 = since w w1 @ since w1 w2" using g1 g2 by (rule since_append)
  moreover have "''cardsToNotes'' \<in> set (actions (since w w1))"
    unfolding w1 by (rule anki_action_member)
  moreover have "''notesInfo'' \<in> set (actions (since w1 w2))"
    unfolding w2 by (rule anki_action_member)
  ultimately show ?thesis by (simp add: actions_append)
qed

text \<open>
  Claim C6, as amended. \<^verbatim>\<open>create-cloze-card\<close> with a text in which \<^verbatim>\<open>{{c\<close> does not
  occur, or \<^verbatim>\<open>}}\<close> does not occur, fails with the validation error in the unchanged
  world: nothing has been called or posted. With a marker pair in the text the
  validation passes and \<^verbatim>\<open>addNote\<close> is called. \<^verbatim>\<open>update-cloze-card\<close> validates a
  non-empty text only after the \<^verbatim>\<open>cardsToNotes\<close> and \<^verbatim>\<open>notesInfo\<close> lookups have been
  sent, have succeeded and have shown a Cloze note: a text that lacks \<^verbatim>\<open>{{c\<close> or
  \<^verbatim>\<open>}}\<close> then fails with the validation error in the world the lookups left, with no
  \<^verbatim>\<open>updateNoteFields\<close> and no \<^verbatim>\<open>replaceTags\<close> call; a text with a marker pair passes.
  Nothing is said of a text that holds both \<^verbatim>\<open>{{c\<close> and \<^verbatim>\<open>}}\<close> without a pair.
\<close>

theorem cloze_marker_validation:
  "(\<not> (\<exists>pre post. text = pre @ ''{{c'' @ post) \<or> \<not> (\<exists>pre post. text = pre @ ''}}'' @ post) \<longrightarrow>
      create_cloze_card deckName text backExtra tgs w = (Inl MissingCloze, w))
   \<and> (marker_pair text \<longrightarrow>
         fst (create_cloze_card deckName text backExtra tgs w) \<noteq> Inl MissingCloze
         \<and> ''addNote'' \<in> set (actions (since w (snd (create_cloze_card deckName text backExtra tgs w)))))
   \<and> (note_of_card cid w = (Inr noteId, w1)
        \<and> anki ''notesInfo'' (JObj [(''notes'', JArr [noteId])]) w1 = (Inr noteInfo, w2)
        \<and> seq (index0 noteInfo) (\<lambda>n. get n ''modelName'') = Inr (JStr ''Cloze'') \<longrightarrow>
          (t \<noteq> [] \<and> (\<not> (\<exists>pre post. t = pre @ ''{{c'' @ post) \<or> \<not> (\<exists>pre post. t = pre @ ''}}'' @ post)) \<longrightarrow>
             update_cloze_card cid (Some t) backExtra tgs w = (Inl MissingCloze, w2)
             \<and> ''cardsToNotes'' \<in> set (actions (since w w2))
             \<and> ''notesInfo'' \<in> set (actions (since w w2))
             \<and> ''updateNoteFields'' \<notin> set (actions (since w w2))
             \<and> ''replaceTags'' \<notin> set (actions (since w w2)))
          \<and> (marker_pair t \<longrightarrow> fst (update_cloze_card cid (Some t) backExtra tgs w) \<noteq> Inl MissingCloze))"
proof (intro conjI impI)
  assume "\<not> (\<exists>pre post. text = pre @ ''{{c'' @ post) \<or> \<not> (\<exists>pre post. text = pre @ ''}}'' @ post)"
  then have "\<not> str_includes text ''{{c'' \<or> \<not> str_includes text ''}}''"
    by (simp add: str_includes_occurs)
  then show "create_cloze_card deckName text backExtra tgs w = (Inl MissingCloze, w)"
    by (simp add: create_cloze_card_def)
next
  assume "marker_pair text"
  then have h: "has_cloze text" by (rule marker_pair_has_cloze)
  show "fst (create_cloze_card deckName text backExtra tgs w) \<noteq> Inl MissingCloze"
    unfolding create_cloze_card_sends [OF h] and_then_unit by (rule anki_not_MissingCloze)
  show "''addNote'' \<in> set (actions (since w (snd (create_cloze_card deckName text backExtra tgs w))))"
    unfolding create_cloze_card_sends [OF h] and_then_unit by (rule anki_action_member)
next
  assume l: "note_of_card cid w = (Inr noteId, w1)
        \<and> anki ''notesInfo'' (JObj [(''notes'', JArr [noteId])]) w1 = (Inr noteInfo, w2)
        \<and> seq (index0 noteInfo) (\<lambda>n. get n ''modelName'') = Inr (JStr ''Cloze'')"
    and t: "t \<noteq> [] \<and> (\<not> (\<exists>pre post. t = pre @ ''{{c'' @ post) \<or> \<not> (\<exists>pre post. t = pre @ ''}}'' @ post))"
  from t have n: "\<not> str_includes t ''{{c'' \<or> \<not> str_includes t ''}}''"
    by (simp add: str_includes_occurs)
  with t have "cloze_fields (Some t) backExtra = Inl MissingCloze"
    by (auto simp: cloze_fields_def seq_def)
  with l t show "update_cloze_card cid (Some t) backExtra tgs w = (Inl MissingCloze, w2)"
    by (simp add: update_cloze_card_def and_then_def pure_def given_def)
  from l have s: "''cardsToNotes'' \<in> set (actions (since w w2))
      \<and> ''notesInfo'' \<in> set (actions (since w w2))"
    by (intro lookups_are_sent [of cid w "Inr noteId" w1 _ "Inr noteInfo"]) auto
  from s show "''cardsToNotes'' \<in> set (actions (since w w2))" ..
  from s show "''notesInfo'' \<in> set (actions (since w w2))" ..
  from l show "''updateNoteFields'' \<notin> set (actions (since w w2))"
    by (intro lookups_leave_other_actions [of cid w "Inr noteId" w1 _ "Inr noteInfo"]) auto
  from l show "''replaceTags'' \<notin> set (actions (since w w2))"
    by (intro lookups_leave_other_actions [of cid w "Inr noteId" w1 _ "Inr noteInfo"]) auto
next
  assume l: "note_of_card cid w = (Inr noteId, w1)
        \<and> anki ''notesInfo'' (JObj [(''notes'', JArr [noteId])]) w1 = (Inr noteInfo, w2)
        \<and> seq (index0 noteInfo) (\<lambda>n. get n ''modelName'') = Inr (JStr ''Cloze'')"
    and "marker_pair t"
  then have t: "has_cloze t" using marker_pair_has_cloze by blast
  from t have ne: "t \<noteq> []" by (rule has_cloze_nonempty)
  with t have f: "cloze_fields (Some t) backExtra
      = Inr ([(''Text'', JStr t)] @ field_if_defined ''Back Extra'' backExtra)"
    by (simp add: cloze_fields_def has_cloze_def seq_def)
  let ?p = "JObj [(''note'', JObj [(''id'', noteId),
      (''fields'', JObj ([(''Text'', JStr t)] @ field_if_defined ''Back Extra'' backExtra))])]"
  have u: "update_cloze_card cid (Some t) backExtra tgs w
      = and_then (anki ''updateNoteFields'' ?p w2) (\<lambda>_ w3. replace_tags noteId tgs w3)"
    using l ne f by (simp add: update_cloze_card_def and_then_def pure_def given_def)
  show "fst (update_cloze_card cid (Some t) backExtra tgs w) \<noteq> Inl MissingCloze"
    unfolding u
    using anki_not_MissingCloze [of "''updateNoteFields''" ?p w2] replace_tags_not_MissingCloze
    by (cases "anki ''updateNoteFields'' ?p w2"; cases "fst (anki ''updateNoteFields'' ?p w2)")
       (auto simp: and_then_def)
qed

text \<open>
  Claim C9 fails on the code. Every request that \<^verbatim>\<open>create-cloze-card\<close> posts is an
  \<^verbatim>\<open>addNote\<close> that writes the back extra to a field named \<^verbatim>\<open>Back\<close> and writes no field
  named \<^verbatim>\<open>Back Extra\<close>, the name that \<^verbatim>\<open>update-cloze-card\<close> writes and the projection
  reads.
\<close>

theorem create_cloze_card_writes_Back:
  assumes "r \<in> set (posted (since w (snd (create_cloze_card deckName text backExtra tgs w))))"
  shows "action r = ''addNote''
         \<and> written r ''Text'' = Inr (JStr text)
         \<and> written r ''Back'' = Inr (JStr (case backExtra of None \<Rightarrow> [] | Some b \<Rightarrow> b))
         \<and> written r ''Back Extra'' = Inr JUndefined"
proof (cases "has_cloze text")
  case False
  then have "create_cloze_card deckName text backExtra tgs w = (Inl MissingCloze, w)"
    by (simp add: create_cloze_card_def has_cloze_def)
  with assms show ?thesis by (simp add: since_def posted_def)
next
  case True
  let ?p = "JObj [(''note'', JObj
             [(''deckName'', JStr deckName),
              (''modelName'', JStr ''Cloze''),
              (''fields'', JObj
                 [(''Text'', JStr text),
                  (''Back'', JStr (case backExtra of None \<Rightarrow> [] | Some b \<Rightarrow> b))]),
              (''tags'', JArr (map JStr (case tgs of None \<Rightarrow> [] | Some ts \<Rightarrow> ts)))])]"
  have "grows (\<lambda>e. \<forall>r. e = Post r \<longrightarrow> r = \<lparr>action = ''addNote'', version = 6, params = ?p\<rparr>) w
      (snd (anki ''addNote'' ?p w))"
    by (rule anki_grows_Q) (auto simp: about_def)
  moreover from assms have "r \<in> set (posted (since w (snd (anki ''addNote'' ?p w))))"
    unfolding create_cloze_card_sends [OF True] and_then_unit .
  ultimately have "r = \<lparr>action = ''addNote'', version = 6, params = ?p\<rparr>"
    by (rule grows_posted)
  then show ?thesis by (simp add: written_def seq_def)
qed


text \<open>
  Claim C6 as stated fails twice. In \<^verbatim>\<open>update-cloze-card\<close> the text without a marker
  is rejected only after two requests have been posted to the backend. In
  \<^verbatim>\<open>create-cloze-card\<close> the text \<^verbatim>\<open>}}{{c\<close>, which has no marker pair, is not rejected:
  the test of line 439 asks for the two substrings in any order, and the note is
  posted.
\<close>

theorem update_cloze_card_validates_late_counterexample:
  "\<not> marker_pair ''Capital of France: Paris''
   \<and> fst (update_cloze_card 5 (Some ''Capital of France: Paris'') None None
           (fresh (serving [] (cloze_note (JStr []))))) = Inl MissingCloze
   \<and> posted (trace (snd (update_cloze_card 5 (Some ''Capital of France: Paris'') None None
           (fresh (serving [] (cloze_note (JStr [])))))))
       = [\<lparr>action = ''cardsToNotes'', version = 6, params = JObj [(''cards'', JArr [JNum 5])]\<rparr>,
          \<lparr>action = ''notesInfo'', version = 6, params = JObj [(''notes'', JArr [JNum 1])]\<rparr>]
   \<and> \<not> marker_pair ''}}{{c''
   \<and> fst (create_cloze_card ''Geography'' ''}}{{c'' None None (fresh (serving [] basic_note))) = Inr ()
   \<and> length (posted (trace (snd (create_cloze_card ''Geography'' ''}}{{c'' None None
           (fresh (serving [] basic_note)))))) = 1"
  by (simp add: update_cloze_card_def note_of_card_def and_then_def pure_def anki_first_attempt
      fresh_def serving_def envelope_def settle_def requested_def cloze_note_def seq_def
      given_def cloze_fields_def marker_pair_def create_cloze_card_def posted_def)


text \<open>The two texts of the specification, on \<^verbatim>\<open>create-cloze-card\<close>, and the one
  without a marker on \<^verbatim>\<open>update-cloze-card\<close> of a Cloze note.\<close>

theorem cloze_marker_validation_witness:
  "\<not> str_includes ''Capital of France: Paris'' ''{{c''
   \<and> marker_pair ''Capital of France: {{c1::Paris}}''
   \<and> create_cloze_card ''Geography'' ''Capital of France: Paris'' None None (fresh (serving [] basic_note))
       = (Inl MissingCloze, fresh (serving [] basic_note))
   \<and> fst (create_cloze_card ''Geography'' ''Capital of France: {{c1::Paris}}'' None None
            (fresh (serving [] basic_note))) = Inr ()
   \<and> ''addNote'' \<in> set (actions (since (fresh (serving [] basic_note))
         (snd (create_cloze_card ''Geography'' ''Capital of France: {{c1::Paris}}'' None None
            (fresh (serving [] basic_note))))))
   \<and> fst (update_cloze_card 5 (Some ''Capital of France: Paris'') (Some ''Seine'') (Some [''geo''])
            (fresh (serving [] (cloze_note (JStr ''Loire''))))) = Inl MissingCloze
   \<and> actions (trace (snd (update_cloze_card 5 (Some ''Capital of France: Paris'') (Some ''Seine'')
            (Some [''geo'']) (fresh (serving [] (cloze_note (JStr ''Loire'')))))))
       = [''cardsToNotes'', ''cardsToNotes'', ''notesInfo'', ''notesInfo'']"
proof -
  let ?b = "fresh (serving [] basic_note)"
  let ?w = "fresh (serving [] (cloze_note (JStr ''Loire'')))"
  let ?w1 = "snd (note_of_card 5 ?w)"
  let ?w2 = "snd (anki ''notesInfo'' (JObj [(''notes'', JArr [JNum 1])]) ?w1)"
  have inc: "\<not> str_includes ''Capital of France: Paris'' ''{{c''"
    by simp
  then have no: "\<not> (\<exists>pre post. ''Capital of France: Paris'' = pre @ ''{{c'' @ post)"
    by (simp only: str_includes_occurs not_False_eq_True)
  have yes: "marker_pair ''Capital of France: {{c1::Paris}}''"
    by (simp add: marker_pair_def)
  have ok: "fst (create_cloze_card ''Geography'' ''Capital of France: {{c1::Paris}}'' None None ?b) = Inr ()"
    by (simp add: create_cloze_card_def and_then_def anki_first_attempt fresh_def serving_def
        envelope_def settle_def)
  have w1: "note_of_card 5 ?w = (Inr (JNum 1),
      ?w\<lparr>posts := 1, trace := [Invoke ''cardsToNotes'' (JObj [(''cards'', JArr [JNum 5])]),
        Post \<lparr>action = ''cardsToNotes'', version = 6, params = JObj [(''cards'', JArr [JNum 5])]\<rparr>]\<rparr>)"
    by (simp add: note_of_card_def and_then_def pure_def anki_first_attempt fresh_def serving_def
        envelope_def settle_def)
  then have h1: "note_of_card 5 ?w = (Inr (JNum 1), ?w1)" by simp
  have w2: "anki ''notesInfo'' (JObj [(''notes'', JArr [JNum 1])]) ?w1
      = (Inr (JArr [cloze_note (JStr ''Loire'') (JNum 1)]),
      ?w1\<lparr>posts := 2, trace := trace ?w1 @ [Invoke ''notesInfo'' (JObj [(''notes'', JArr [JNum 1])]),
        Post \<lparr>action = ''notesInfo'', version = 6, params = JObj [(''notes'', JArr [JNum 1])]\<rparr>]\<rparr>)"
    unfolding w1 snd_conv
    by (simp add: anki_first_attempt fresh_def serving_def envelope_def settle_def requested_def)
  then have h2: "anki ''notesInfo'' (JObj [(''notes'', JArr [JNum 1])]) ?w1
      = (Inr (JArr [cloze_note (JStr ''Loire'') (JNum 1)]), ?w2)" by simp
  have h3: "seq (index0 (JArr [cloze_note (JStr ''Loire'') (JNum 1)])) (\<lambda>n. get n ''modelName'')
      = Inr (JStr ''Cloze'')"
    by (simp add: seq_def cloze_note_def)
  have t: "actions (trace ?w2) = [''cardsToNotes'', ''cardsToNotes'', ''notesInfo'', ''notesInfo'']"
    unfolding w2 snd_conv unfolding w1 snd_conv
    by (simp add: actions_def fresh_def)
  note v = cloze_marker_validation
  from v [of "''Capital of France: Paris''" "''Geography''" None None ?b] no
  have a: "create_cloze_card ''Geography'' ''Capital of France: Paris'' None None ?b
      = (Inl MissingCloze, ?b)" by blast
  from v [of "''Capital of France: {{c1::Paris}}''" "''Geography''" None None ?b] yes
  have b: "''addNote'' \<in> set (actions (since ?b
      (snd (create_cloze_card ''Geography'' ''Capital of France: {{c1::Paris}}'' None None ?b))))"
    by blast
  have ne: "''Capital of France: Paris'' \<noteq> []" by simp
  from v [of _ _ "Some ''Seine''" "Some [''geo'']" ?w 5 "JNum 1" ?w1
      "JArr [cloze_note (JStr ''Loire'') (JNum 1)]" ?w2 "''Capital of France: Paris''"] h1 h2 h3 no ne
  have c: "update_cloze_card 5 (Some ''Capital of France: Paris'') (Some ''Seine'') (Some [''geo'']) ?w
      = (Inl MissingCloze, ?w2)"
    by blast
  from inc yes a ok b c t show ?thesis by simp
qed

text \<open>A cloze card created with the back extra ``Seine'': the request that is posted.\<close>

theorem create_cloze_card_writes_Back_witness:
  "posted (trace (snd (create_cloze_card ''Geography'' ''Capital of France: {{c1::Paris}}''
      (Some ''Seine'') None (fresh (serving [] basic_note)))))
     = [\<lparr>action = ''addNote'', version = 6,
         params = JObj [(''note'', JObj
           [(''deckName'', JStr ''Geography''), (''modelName'', JStr ''Cloze''),
            (''fields'', JObj [(''Text'', JStr ''Capital of France: {{c1::Paris}}''),
                               (''Back'', JStr ''Seine'')]),
            (''tags'', JArr [])])]\<rparr>]
   \<and> written \<lparr>action = ''addNote'', version = 6,
         params = JObj [(''note'', JObj
           [(''deckName'', JStr ''Geography''), (''modelName'', JStr ''Cloze''),
            (''fields'', JObj [(''Text'', JStr ''Capital of France: {{c1::Paris}}''),
                               (''Back'', JStr ''Seine'')]),
            (''tags'', JArr [])])]\<rparr> ''Back Extra'' = Inr JUndefined
   \<and> written \<lparr>action = ''addNote'', version = 6,
         params = JObj [(''note'', JObj
           [(''deckName'', JStr ''Geography''), (''modelName'', JStr ''Cloze''),
            (''fields'', JObj [(''Text'', JStr ''Capital of France: {{c1::Paris}}''),
                               (''Back'', JStr ''Seine'')]),
            (''tags'', JArr [])])]\<rparr> ''Back'' = Inr (JStr ''Seine'')"
proof -
  let ?w = "fresh (serving [] basic_note)"
  let ?r = "\<lparr>action = ''addNote'', version = 6,
         params = JObj [(''note'', JObj
           [(''deckName'', JStr ''Geography''), (''modelName'', JStr ''Cloze''),
            (''fields'', JObj [(''Text'', JStr ''Capital of France: {{c1::Paris}}''),
                               (''Back'', JStr ''Seine'')]),
            (''tags'', JArr [])])]\<rparr>"
  have p: "posted (trace (snd (create_cloze_card ''Geography'' ''Capital of France: {{c1::Paris}}''
      (Some ''Seine'') None ?w))) = [?r]"
    by (simp add: create_cloze_card_def and_then_def anki_first_attempt fresh_def serving_def
        envelope_def settle_def posted_def)
  then have "?r \<in> set (posted (since ?w (snd (create_cloze_card ''Geography''
      ''Capital of France: {{c1::Paris}}'' (Some ''Seine'') None ?w))))"
    by (simp add: since_def fresh_def)
  from create_cloze_card_writes_Back [OF this] p show ?thesis by simp
qed

section \<open>Reading a deck in batches\<close>

lemma chunks_Nil: "chunks n [] = []"
  by (simp add: chunks.simps)

lemma chunks_Cons: "0 < n \<Longrightarrow> xs \<noteq> [] \<Longrightarrow> chunks n xs = take n xs # chunks n (drop n xs)"
  by (subst chunks.simps) simp

lemma concat_chunks: "0 < n \<Longrightarrow> concat (chunks n xs) = xs"
proof (induction n xs rule: chunks.induct)
  case (1 n xs)
  show ?case
  proof (cases "xs = []")
    case True
    then show ?thesis by (simp add: chunks_Nil)
  next
    case False
    with 1 show ?thesis by (simp add: chunks_Cons)
  qed
qed

lemma lengths_chunks:
  "0 < n \<Longrightarrow> map length (chunks n xs)
     = replicate (length xs div n) n @ (if length xs mod n = 0 then [] else [length xs mod n])"
proof (induction n xs rule: chunks.induct)
  case (1 n xs)
  show ?case
  proof (cases "xs = []")
    case True
    then show ?thesis by (simp add: chunks_Nil)
  next
    case False
    note ne = this
    show ?thesis
    proof (cases "n \<le> length xs")
      case True
      then have d: "length xs div n = Suc ((length xs - n) div n)"
        using 1(2) by (simp add: le_div_geq)
      have m: "(length xs - n) mod n = length xs mod n"
        using True by (simp add: le_mod_geq)
      have "map length (chunks n (drop n xs))
          = replicate ((length xs - n) div n) n
            @ (if (length xs - n) mod n = 0 then [] else [(length xs - n) mod n])"
        using 1 ne by simp
      with True ne 1(2) show ?thesis
        by (simp add: chunks_Cons d m)
    next
      case False
      then have "length xs < n" by simp
      with ne 1(2) show ?thesis
        by (simp add: chunks_Cons chunks_Nil)
    qed
  qed
qed

lemma length_chunks_5: "length (chunks 5 xs) = (length xs + 4) div 5"
proof -
  have "length (chunks 5 xs) = length (map length (chunks 5 xs))" by simp
  also have "\<dots> = length xs div 5 + (if length xs mod 5 = 0 then 0 else 1)"
    by (simp add: lengths_chunks)
  also have "\<dots> = (length xs + 4) div 5" by presburger
  finally show ?thesis .
qed


text \<open>
  The loop against a backend that answers every \<^verbatim>\<open>notesInfo\<close> request with one note
  per requested identifier: each call succeeds at its first attempt, and the loop
  returns the notes of all identifiers from index \<open>i\<close> on.
\<close>

lemma slice_chunk: "slice xs i (i + chunkSize) = take 5 (drop i xs)"
  by (simp add: slice_def chunkSize_def)

lemma fetch_chunks_reliable:
  assumes R: "\<forall>k c. settle ''notesInfo''
        (backend w0 k \<lparr>action = ''notesInfo'', version = 6, params = JObj [(''notes'', JArr c)]\<rparr>)
      = Inr (JArr (map info c))"
  shows "backend w = backend w0 \<Longrightarrow>
    \<exists>w'. fetch_chunks noteIds i allNotes w = (Inr (allNotes @ map info (drop i noteIds)), w')
      \<and> backend w' = backend w0
      \<and> trace w' = trace w @ concat (map (\<lambda>c.
            [Invoke ''notesInfo'' (JObj [(''notes'', JArr c)]),
             Post \<lparr>action = ''notesInfo'', version = 6, params = JObj [(''notes'', JArr c)]\<rparr>])
          (chunks 5 (drop i noteIds)))"
proof (induction "length noteIds - i" arbitrary: i allNotes w rule: less_induct)
  case less
  show ?case
  proof (cases "i < length noteIds")
    case False
    then show ?thesis
      using less(2) by (simp add: fetch_chunks.simps [of noteIds i] chunks_Nil)
  next
    case True
    let ?c = "take 5 (drop i noteIds)"
    let ?p = "JObj [(''notes'', JArr ?c)]"
    let ?w1 = "w\<lparr>posts := Suc (posts w),
       trace := trace w @ [Invoke ''notesInfo'' ?p, Post \<lparr>action = ''notesInfo'', version = 6, params = ?p\<rparr>]\<rparr>"
    have "settle ''notesInfo'' (backend w (posts w) \<lparr>action = ''notesInfo'', version = 6, params = ?p\<rparr>)
        = Inr (JArr (map info ?c))"
      using R less(2) by simp
    then have a: "anki ''notesInfo'' ?p w = (Inr (JArr (map info ?c)), ?w1)"
      by (rule anki_first_attempt)
    have step: "fetch_chunks noteIds i allNotes w
        = fetch_chunks noteIds (i + chunkSize) (allNotes @ map info ?c) ?w1"
      using True a
      by (subst fetch_chunks.simps) (simp add: slice_chunk and_then_def concat_js_def)
    have "length noteIds - (i + chunkSize) < length noteIds - i"
      using True by (simp add: chunkSize_def)
    moreover have "backend ?w1 = backend w0" using less(2) by simp
    ultimately obtain w' where
      r: "fetch_chunks noteIds (i + chunkSize) (allNotes @ map info ?c) ?w1
          = (Inr ((allNotes @ map info ?c) @ map info (drop (i + chunkSize) noteIds)), w')"
      and b: "backend w' = backend w0"
      and t: "trace w' = trace ?w1 @ concat (map (\<lambda>c.
            [Invoke ''notesInfo'' (JObj [(''notes'', JArr c)]),
             Post \<lparr>action = ''notesInfo'', version = 6, params = JObj [(''notes'', JArr c)]\<rparr>])
          (chunks 5 (drop (i + chunkSize) noteIds)))"
      using less(1) [of "i + chunkSize" ?w1 "allNotes @ map info ?c"] by blast
    have d: "drop (i + chunkSize) noteIds = drop 5 (drop i noteIds)"
      by (simp add: chunkSize_def add.commute)
    have ne: "drop i noteIds \<noteq> []" using True by simp
    have "?c @ drop 5 (drop i noteIds) = drop i noteIds"
      by (rule append_take_drop_id)
    then have "map info (?c @ drop 5 (drop i noteIds)) = map info (drop i noteIds)"
      by (rule arg_cong)
    then have m: "map info ?c @ map info (drop 5 (drop i noteIds)) = map info (drop i noteIds)"
      by (simp only: map_append)
    have c: "chunks 5 (drop i noteIds) = ?c # chunks 5 (drop 5 (drop i noteIds))"
      using ne by (simp add: chunks_Cons)
    show ?thesis
      unfolding step r d c using b t m by (simp add: d)
  qed
qed

lemma batches_of_calls:
  "batches (concat (map (\<lambda>c.
      [Invoke ''notesInfo'' (JObj [(''notes'', JArr c)]),
       Post \<lparr>action = ''notesInfo'', version = 6, params = JObj [(''notes'', JArr c)]\<rparr>]) cs)) = cs"
  by (induction cs) (simp_all add: batches_def batch_of_def)

lemma batches_append: "batches (xs @ ys) = batches xs @ batches ys"
  by (simp add: batches_def)

lemma batches_about:
  assumes "list_all (about a p) evs" and "a \<noteq> ''notesInfo''"
  shows "batches evs = []"
  using assms
  by (induction evs)
     (auto simp: batches_def batch_of_def about_def split: event.splits js.splits list.splits prod.splits)

lemma map_cards_pointwise:
  "\<forall>i\<in>set ids. cardInfo (info i) = Inr (proj i) \<Longrightarrow> map_cards (map info ids) = Inr (map proj ids)"
  by (induction ids) (simp_all add: seq_def)


text \<open>
  Claim C8. When \<^verbatim>\<open>findNotes\<close> has found the \<open>n\<close> identifiers \<open>noteIds\<close> (\<open>n\<close> not 0)
  and the backend answers every \<^verbatim>\<open>notesInfo\<close> request with one note per requested
  identifier, in order, and these notes can be projected and rendered, the listing
  calls \<^verbatim>\<open>notesInfo\<close> exactly \<open>(n + 4) div 5\<close> times, one after the other, with
  batches of sizes 5, ..., 5 and then \<open>n mod 5\<close> if that is not 0; the batches
  concatenated are \<open>noteIds\<close>; the notes fetched and the cards projected are those of
  \<open>noteIds\<close> in the original order, \<open>n\<close> of them.
\<close>

theorem deck_is_fetched_in_batches_of_five:
  assumes f: "anki ''findNotes'' (JObj [(''query'', JStr (''deck:'' @ deckName))]) w
        = (Inr (JArr noteIds), w1)"
    and ne: "noteIds \<noteq> []"
    and R: "\<forall>k c. settle ''notesInfo''
        (backend w k \<lparr>action = ''notesInfo'', version = 6, params = JObj [(''notes'', JArr c)]\<rparr>)
      = Inr (JArr (map info c))"
    and P: "\<forall>i\<in>set noteIds. cardInfo (info i) = Inr (proj i)"
    and T: "\<forall>i\<in>set noteIds. is_array (tags (proj i))"
  shows "\<exists>w2. read_deck deckName w = (Inr (Cards (map proj noteIds)), w2)
           \<and> fetch_chunks noteIds 0 [] w1 = (Inr (map info noteIds), w2)
           \<and> length (map info noteIds) = length noteIds
           \<and> concat (batches (since w w2)) = noteIds
           \<and> map length (batches (since w w2))
               = replicate (length noteIds div 5) 5
                 @ (if length noteIds mod 5 = 0 then [] else [length noteIds mod 5])
           \<and> length (batches (since w w2)) = (length noteIds + 4) div 5
           \<and> length (filter (\<lambda>r. action r = ''notesInfo'') (posted (since w w2)))
               = (length noteIds + 4) div 5"
proof -
  let ?q = "JObj [(''query'', JStr (''deck:'' @ deckName))]"
  let ?calls = "concat (map (\<lambda>c.
            [Invoke ''notesInfo'' (JObj [(''notes'', JArr c)]),
             Post \<lparr>action = ''notesInfo'', version = 6, params = JObj [(''notes'', JArr c)]\<rparr>])
          (chunks 5 noteIds))"
  have g: "grows (about ''findNotes'' ?q) w w1"
    using anki_grows [of "''findNotes''" ?q w] f by simp
  then obtain evs where b1: "backend w1 = backend w" and t1: "trace w1 = trace w @ evs"
    and q1: "list_all (about ''findNotes'' ?q) evs"
    by (rule growsE)
  from fetch_chunks_reliable [OF R b1, of noteIds 0 "[]"]
  obtain w2 where r: "fetch_chunks noteIds 0 [] w1 = (Inr (map info noteIds), w2)"
    and t2: "trace w2 = trace w1 @ ?calls"
    by auto
  have s: "since w w2 = evs @ ?calls"
    by (simp add: since_def t1 t2)
  have be: "batches evs = []"
    using q1 by (rule batches_about) simp
  have bs: "batches (since w w2) = chunks 5 noteIds"
    by (simp add: s batches_append be batches_of_calls)
  have pe: "filter (\<lambda>r. action r = ''notesInfo'') (posted evs) = []"
    using q1
    by (induction evs) (auto simp: posted_def about_def split: event.splits)
  have pc: "filter (\<lambda>r. action r = ''notesInfo'') (posted (concat (map (\<lambda>c.
            [Invoke ''notesInfo'' (JObj [(''notes'', JArr c)]),
             Post \<lparr>action = ''notesInfo'', version = 6, params = JObj [(''notes'', JArr c)]\<rparr>]) cs)))
      = map (\<lambda>c. \<lparr>action = ''notesInfo'', version = 6, params = JObj [(''notes'', JArr c)]\<rparr>) cs" for cs
    by (induction cs) (simp_all add: posted_def)
  have pa: "posted (xs @ ys) = posted xs @ posted ys" for xs ys
    by (simp add: posted_def)
  have ps: "length (filter (\<lambda>r. action r = ''notesInfo'') (posted (since w w2)))
      = length (chunks 5 noteIds)"
    by (simp add: s pa pe pc)
  have m: "map_cards (map info noteIds) = Inr (map proj noteIds)"
    using P by (rule map_cards_pointwise)
  have d: "deckContent (map proj noteIds) = Inr (map proj noteIds)"
    using T by (simp add: deckContent_def list_all_iff)
  have "read_deck deckName w = (Inr (Cards (map proj noteIds)), w2)"
    using f ne r m d by (simp add: read_deck_def and_then_def pure_def seq_def)
  with r bs ps show ?thesis
    by (simp add: concat_chunks lengths_chunks length_chunks_5)
qed


text \<open>A deck of twelve notes: three requests, with 5, 5 and 2 notes, and twelve cards.\<close>

theorem deck_is_fetched_in_batches_of_five_witness:
  "length twelve = 12
   \<and> fst (read_deck ''Geography'' (fresh (serving twelve basic_note)))
       = Inr (Cards (map basic_card twelve))
   \<and> map length (batches (trace (snd (read_deck ''Geography'' (fresh (serving twelve basic_note))))))
       = [5, 5, 2]
   \<and> concat (batches (trace (snd (read_deck ''Geography'' (fresh (serving twelve basic_note))))))
       = twelve
   \<and> length (filter (\<lambda>r. action r = ''notesInfo'')
         (posted (trace (snd (read_deck ''Geography'' (fresh (serving twelve basic_note))))))) = 3"
proof -
  let ?w = "fresh (serving twelve basic_note)"
  let ?q = "JObj [(''query'', JStr (''deck:'' @ ''Geography''))]"
  have l: "length twelve = 12" by (simp add: twelve_def)
  have "fst (anki ''findNotes'' ?q ?w) = Inr (JArr twelve)"
    by (simp add: anki_first_attempt fresh_def serving_def envelope_def settle_def)
  then have f: "anki ''findNotes'' ?q ?w = (Inr (JArr twelve), snd (anki ''findNotes'' ?q ?w))"
    by (simp add: prod_eq_iff)
  have ne: "twelve \<noteq> []" by (simp add: twelve_def)
  have R: "\<forall>k c. settle ''notesInfo''
        (backend ?w k \<lparr>action = ''notesInfo'', version = 6, params = JObj [(''notes'', JArr c)]\<rparr>)
      = Inr (JArr (map basic_note c))"
    by (simp add: fresh_def serving_def envelope_def settle_def requested_def)
  have P: "\<forall>i\<in>set twelve. cardInfo (basic_note i) = Inr (basic_card i)"
    by (simp add: cardInfo_def basic_note_def basic_card_def seq_def)
  have T: "\<forall>i\<in>set twelve. is_array (tags (basic_card i))"
    by (simp add: basic_card_def is_array_def)
  have s0: "since ?w w' = trace w'" for w'
    by (simp add: since_def fresh_def)
  have n: "replicate (12 div 5) 5 @ (if (12::nat) mod 5 = 0 then [] else [12 mod 5]) = [5, 5, 2::nat]"
    by (simp add: numeral_2_eq_2)
  from deck_is_fetched_in_batches_of_five [OF f ne R P T]
  obtain w2 where r: "read_deck ''Geography'' ?w = (Inr (Cards (map basic_card twelve)), w2)"
    and c: "concat (batches (since ?w w2)) = twelve"
    and m: "map length (batches (since ?w w2))
        = replicate (length twelve div 5) 5
          @ (if length twelve mod 5 = 0 then [] else [length twelve mod 5])"
    and p: "length (filter (\<lambda>r. action r = ''notesInfo'') (posted (since ?w w2)))
        = (length twelve + 4) div 5"
    by (elim exE conjE)
  have w2: "snd (read_deck ''Geography'' ?w) = w2" using r by simp
  have m': "map length (batches (trace w2)) = [5, 5, 2]"
    using m unfolding s0 l n .
  have p': "length (filter (\<lambda>r. action r = ''notesInfo'') (posted (trace w2))) = 3"
    using p unfolding s0 l by simp
  have c': "concat (batches (trace w2)) = twelve"
    using c unfolding s0 .
  show ?thesis
    unfolding w2 using l r m' p' c' by simp
qed

end
